theory Spec2Isabelle
  imports Complex_Main "HOL-Library.Stream"
begin

section \<open>Particle field (js/particles.js)\<close>

text \<open>
  JavaScript numbers are modelled as real numbers: the model is the exact-arithmetic
  reading of the IEEE doubles the browser computes with. The concrete particles and mouse
  positions used below have coordinates, velocities and distances that double arithmetic
  represents exactly.
\<close>

subsection \<open>Configuration, canvas, mouse and particles\<close>

record colors =
  particle :: string
  connection :: string
  mouseConnection :: string

record pconfig =
  particleCount :: int
  particleSize :: real
  particleSpeed :: real
  connectionDistance :: real
  mouseRadius :: real
  mouseForce :: real
  colors :: colors

text \<open>The \<^verbatim>\<open>config\<close> object of particles.js.\<close>

definition config :: pconfig where
  "config = \<lparr> particleCount = 100, particleSize = 2, particleSpeed = 0.5,
     connectionDistance = 120, mouseRadius = 150, mouseForce = 0.5,
     colors = \<lparr> particle = ''rgba(99, 102, 241, 0.8)'',
                connection = ''rgba(99, 102, 241, 0.15)'',
                mouseConnection = ''rgba(129, 140, 248, 0.3)'' \<rparr> \<rparr>"

text \<open>The canvas element: its \<^verbatim>\<open>width\<close> and \<^verbatim>\<open>height\<close> attributes are unsigned integers.\<close>

record canvas =
  width :: nat
  height :: nat

text \<open>
  The \<^verbatim>\<open>mouse\<close> object: \<^verbatim>\<open>x\<close> and \<^verbatim>\<open>y\<close> are \<^verbatim>\<open>null\<close> (here \<open>None\<close>) while the
  pointer is outside the canvas. The fields carry the prefix \<open>m_\<close>.
\<close>

record mouse =
  m_x :: "real option"
  m_y :: "real option"
  m_radius :: real

text \<open>The initial \<^verbatim>\<open>mouse\<close> object, and the two listeners that write it.\<close>

definition mouse_init :: "pconfig \<Rightarrow> mouse" where
  "mouse_init cfg = \<lparr> m_x = None, m_y = None, m_radius = mouseRadius cfg \<rparr>"

definition mousemove :: "mouse \<Rightarrow> real \<Rightarrow> real \<Rightarrow> mouse" where
  "mousemove m ex ey = m\<lparr> m_x := Some ex, m_y := Some ey \<rparr>"

definition mouseleave :: "mouse \<Rightarrow> mouse" where
  "mouseleave m = m\<lparr> m_x := None, m_y := None \<rparr>"

text \<open>The fields of class \<^verbatim>\<open>Particle\<close>, with the prefix \<open>p_\<close>.\<close>

record particle_state =
  p_x :: real
  p_y :: real
  p_vx :: real
  p_vy :: real
  p_size :: real
  p_opacity :: real

text \<open>
  \<^verbatim>\<open>Math.random()\<close> is an explicit source of draws: a stream whose head is the next
  value returned and whose tail is the source afterwards. A draw lies in \<open>[0, 1)\<close>.
\<close>

type_synonym rng = "real stream"

definition random_ok :: "rng \<Rightarrow> bool" where
  "random_ok g = (sset g \<subseteq> {0 ..< 1})"

text \<open>The constructor of \<^verbatim>\<open>Particle\<close>: six draws, in the order of the source.\<close>

definition Particle :: "canvas \<Rightarrow> pconfig \<Rightarrow> rng \<Rightarrow> particle_state \<times> rng" where
  "Particle cv cfg g =
     (\<lparr> p_x = g !! 0 * real (width cv),
        p_y = g !! 1 * real (height cv),
        p_vx = (g !! 2 - 0.5) * particleSpeed cfg,
        p_vy = (g !! 3 - 0.5) * particleSpeed cfg,
        p_size = particleSize cfg * (0.8 + g !! 4 * 0.4),
        p_opacity = 0.3 + g !! 5 * 0.7 \<rparr>,
      sdrop 6 g)"

subsection \<open>\<^verbatim>\<open>Particle.update\<close>\<close>

text \<open>
  \<^verbatim>\<open>Math.atan2(b, a)\<close> on real numbers (signed zeros are not distinguished;
  \<^verbatim>\<open>Math.atan2(0, 0)\<close> is \<open>0\<close>).
\<close>

definition atan2 :: "real \<Rightarrow> real \<Rightarrow> real" where
  "atan2 b a =
     (if 0 < a then arctan (b / a)
      else if a < 0 then (if 0 \<le> b then arctan (b / a) + pi else arctan (b / a) - pi)
      else if 0 < b then pi / 2
      else if b < 0 then - (pi / 2)
      else 0)"

text \<open>Move particle.\<close>

definition move :: "particle_state \<Rightarrow> particle_state" where
  "move p = p\<lparr> p_x := p_x p + p_vx p, p_y := p_y p + p_vy p \<rparr>"

text \<open>
  Bounce off edges with slight randomization. A draw is consumed only in a branch that
  is taken.
\<close>

definition bounce_x :: "canvas \<Rightarrow> particle_state \<Rightarrow> rng \<Rightarrow> particle_state \<times> rng" where
  "bounce_x cv p g =
     (if p_x p < 0 \<or> p_x p > real (width cv)
      then (p\<lparr> p_vx := p_vx p * (- 1) + (shd g - 0.5) * 0.1 \<rparr>, stl g)
      else (p, g))"

definition bounce_y :: "canvas \<Rightarrow> particle_state \<Rightarrow> rng \<Rightarrow> particle_state \<times> rng" where
  "bounce_y cv p g =
     (if p_y p < 0 \<or> p_y p > real (height cv)
      then (p\<lparr> p_vy := p_vy p * (- 1) + (shd g - 0.5) * 0.1 \<rparr>, stl g)
      else (p, g))"

text \<open>Keep velocity in check.\<close>

definition clamp_velocity :: "pconfig \<Rightarrow> particle_state \<Rightarrow> particle_state" where
  "clamp_velocity cfg p =
     (let maxSpeed = particleSpeed cfg * 2 in
      p\<lparr> p_vx := max (- maxSpeed) (min maxSpeed (p_vx p)),
         p_vy := max (- maxSpeed) (min maxSpeed (p_vy p)) \<rparr>)"

text \<open>
  Mouse interaction. It runs after the move, so \<^verbatim>\<open>this.x\<close> and \<^verbatim>\<open>this.y\<close> are the
  position already moved, and after the clamp.
\<close>

definition mouse_interaction :: "pconfig \<Rightarrow> mouse \<Rightarrow> particle_state \<Rightarrow> particle_state" where
  "mouse_interaction cfg m p =
     (case (m_x m, m_y m) of
        (Some mx, Some my) \<Rightarrow>
          (let dx = mx - p_x p; dy = my - p_y p; distance = sqrt (dx * dx + dy * dy) in
           if distance < m_radius m then
             (let force = (m_radius m - distance) / m_radius m; angle = atan2 dy dx in
              p\<lparr> p_vx := p_vx p - cos angle * force * mouseForce cfg,
                 p_vy := p_vy p - sin angle * force * mouseForce cfg \<rparr>)
           else p)
      | _ \<Rightarrow> p)"

definition update :: "canvas \<Rightarrow> pconfig \<Rightarrow> mouse \<Rightarrow> particle_state \<Rightarrow> rng \<Rightarrow> particle_state \<times> rng" where
  "update cv cfg m p g =
     (let (p1, g1) = bounce_x cv (move p) g;
          (p2, g2) = bounce_y cv p1 g1
      in (mouse_interaction cfg m (clamp_velocity cfg p2), g2))"

text \<open>
  One frame of \<^verbatim>\<open>animate\<close>: \<^verbatim>\<open>particles.forEach(particle => particle.update())\<close>,
  the draws threaded through the particles in order.
\<close>

fun step :: "canvas \<Rightarrow> pconfig \<Rightarrow> mouse \<Rightarrow> particle_state list \<Rightarrow> rng \<Rightarrow> particle_state list \<times> rng" where
  "step cv cfg m [] g = ([], g)"
| "step cv cfg m (p # ps) g =
     (let (p', g') = update cv cfg m p g;
          (ps', g'') = step cv cfg m ps g'
      in (p' # ps', g''))"

text \<open>
  Several frames in a row. The listeners may rewrite \<^verbatim>\<open>mouse\<close> between frames, so each
  frame has its own mouse state: the list gives them in order.
\<close>

fun steps :: "canvas \<Rightarrow> pconfig \<Rightarrow> mouse list \<Rightarrow> particle_state list \<Rightarrow> rng \<Rightarrow> particle_state list \<times> rng" where
  "steps cv cfg [] ps g = (ps, g)"
| "steps cv cfg (m # ms) ps g =
     (let (ps', g') = step cv cfg m ps g in steps cv cfg ms ps' g')"

text \<open>\<^verbatim>\<open>initParticles\<close>: \<^verbatim>\<open>particleCount\<close> constructor calls.\<close>

fun initParticles_loop :: "canvas \<Rightarrow> pconfig \<Rightarrow> nat \<Rightarrow> rng \<Rightarrow> particle_state list \<times> rng" where
  "initParticles_loop cv cfg 0 g = ([], g)"
| "initParticles_loop cv cfg (Suc k) g =
     (let (p, g') = Particle cv cfg g;
          (ps, g'') = initParticles_loop cv cfg k g'
      in (p # ps, g''))"

definition initParticles :: "canvas \<Rightarrow> pconfig \<Rightarrow> rng \<Rightarrow> particle_state list \<times> rng" where
  "initParticles cv cfg g = initParticles_loop cv cfg (nat (particleCount cfg)) g"

subsection \<open>\<^verbatim>\<open>connectParticles\<close>\<close>

text \<open>
  \<^verbatim>\<open>connectParticles\<close> draws on the canvas. Each \<^verbatim>\<open>ctx.stroke()\<close> is recorded as a
  segment: the stroke style, the \<^verbatim>\<open>globalAlpha\<close> and the \<^verbatim>\<open>lineWidth\<close> in force, the two
  end points, and the value of the local \<^verbatim>\<open>opacity\<close> the stroke was computed from. The
  result lists the strokes in the order they are drawn.
\<close>

record segment =
  strokeStyle :: string
  globalAlpha :: real
  lineWidth :: real
  moveTo :: "real \<times> real"
  lineTo :: "real \<times> real"
  opacity :: real

text \<open>The body of the inner loop, for the particles \<^verbatim>\<open>particles[i]\<close> and \<^verbatim>\<open>particles[j]\<close>.\<close>

definition pair_connection :: "pconfig \<Rightarrow> particle_state \<Rightarrow> particle_state \<Rightarrow> segment list" where
  "pair_connection cfg a b =
     (let dx = p_x a - p_x b; dy = p_y a - p_y b; distance = sqrt (dx * dx + dy * dy) in
      if distance < connectionDistance cfg then
        [\<lparr> strokeStyle = connection (colors cfg),
            globalAlpha = (1 - distance / connectionDistance cfg) * 0.5,
            lineWidth = 1,
            moveTo = (p_x a, p_y a),
            lineTo = (p_x b, p_y b),
            opacity = 1 - distance / connectionDistance cfg \<rparr>]
      else [])"

text \<open>Connect to mouse if nearby.\<close>

definition mouse_connection :: "pconfig \<Rightarrow> mouse \<Rightarrow> particle_state \<Rightarrow> segment list" where
  "mouse_connection cfg m a =
     (case (m_x m, m_y m) of
        (Some mx, Some my) \<Rightarrow>
          (let dx = p_x a - mx; dy = p_y a - my; distance = sqrt (dx * dx + dy * dy) in
           if distance < m_radius m then
             [\<lparr> strokeStyle = mouseConnection (colors cfg),
                 globalAlpha = 1 - distance / m_radius m,
                 lineWidth = 2,
                 moveTo = (p_x a, p_y a),
                 lineTo = (mx, my),
                 opacity = 1 - distance / m_radius m \<rparr>]
           else [])
      | _ \<Rightarrow> [])"

text \<open>
  The two loops: for each \<open>i\<close>, the pairs \<open>(i, j)\<close> with \<open>i < j\<close> in increasing \<open>j\<close>,
  then the segment from particle \<open>i\<close> to the mouse.
\<close>

definition connectParticles :: "pconfig \<Rightarrow> mouse \<Rightarrow> particle_state list \<Rightarrow> segment list" where
  "connectParticles cfg m ps =
     concat (map (\<lambda>i. concat (map (\<lambda>j. pair_connection cfg (ps ! i) (ps ! j)) [i + 1 ..< length ps])
                       @ mouse_connection cfg m (ps ! i))
                 [0 ..< length ps])"

section \<open>Carousel controller (js/carousel.js)\<close>

subsection \<open>Configuration and state\<close>

record carousel_config =
  itemWidth :: real
  itemGap :: real
  transitionDuration :: real
  easing :: string
  autoplay :: bool
  autoplayDelay :: real
  loop :: bool
  dragEnabled :: bool
  dragThreshold :: real

text \<open>The \<^verbatim>\<open>carouselConfig\<close> object.\<close>

definition carouselConfig :: carousel_config where
  "carouselConfig = \<lparr> itemWidth = 320, itemGap = 32, transitionDuration = 600,
     easing = ''cubic-bezier(0.34, 1.56, 0.64, 1)'', autoplay = False, autoplayDelay = 5000,
     loop = True, dragEnabled = True, dragThreshold = 50 \<rparr>"

text \<open>
  What \<^verbatim>\<open>updateItemStates\<close> writes to one item: one of the classes \<^verbatim>\<open>active\<close>,
  \<^verbatim>\<open>adjacent\<close>, \<^verbatim>\<open>distant\<close>, the \<^verbatim>\<open>rotateY\<close> angle in degrees and the scale of its
  transform, its opacity and its z-index. An item the controller has not yet written to
  has no state class and no z-index.
\<close>

datatype item_class = Active | Adjacent | Distant

record item_style =
  stateClass :: "item_class option"
  rotateY :: int
  item_scale :: real
  item_opacity :: real
  zIndex :: "int option"

definition unstyled :: item_style where
  "unstyled = \<lparr> stateClass = None, rotateY = 0, item_scale = 1, item_opacity = 1, zIndex = None \<rparr>"

text \<open>
  The progress is a quotient by \<^verbatim>\<open>totalItems\<close>, which is \<open>0\<close> for a carousel without
  items: a JavaScript division by zero gives \<^verbatim>\<open>Infinity\<close>, \<^verbatim>\<open>-Infinity\<close> or \<^verbatim>\<open>NaN\<close>
  and does not throw.
\<close>

datatype number = Finite real | PosInfinity | NegInfinity | NaN

definition divide_number :: "real \<Rightarrow> real \<Rightarrow> number" where
  "divide_number a b =
     (if b \<noteq> 0 then Finite (a / b)
      else if 0 < a then PosInfinity
      else if a < 0 then NegInfinity
      else NaN)"

definition times_100 :: "number \<Rightarrow> number" where
  "times_100 v = (case v of Finite r \<Rightarrow> Finite (r * 100) | w \<Rightarrow> w)"

text \<open>
  The fields of class \<^verbatim>\<open>Carousel3D\<close> (\<^verbatim>\<open>this.config\<close> is \<open>cconfig\<close>), followed by what
  the controller owns outside the object:
  \<^item> \<open>items\<close>: the styles of the elements of \<^verbatim>\<open>this.items\<close>;
  \<^item> \<open>trackTransform\<close>: the \<^verbatim>\<open>translateX\<close> of \<^verbatim>\<open>this.track.style.transform\<close>, in pixels;
    \<open>trackCursor\<close> and \<open>trackUserSelect\<close>: two more style properties of the track;
  \<^item> \<open>progressBar\<close>: the width written to the progress bar of the page, in percent;
  \<^item> \<open>pending\<close>: the track animations in flight, oldest first, each with the offset
    its \<^verbatim>\<open>onfinish\<close> callback will write; all animations last \<^verbatim>\<open>transitionDuration\<close>, so
    they finish in the order they were started;
  \<^item> \<open>nextTimer\<close>: the handle the next \<^verbatim>\<open>setInterval\<close> call returns (handles are
    positive, hence truthy).
\<close>

record carousel =
  cconfig :: carousel_config
  currentIndex :: int
  totalItems :: int
  isAnimating :: bool
  autoplayTimer :: "nat option"
  isDragging :: bool
  startX :: real
  currentX :: real
  dragDistance :: real
  items :: "item_style list"
  trackTransform :: real
  trackCursor :: string
  trackUserSelect :: string
  progressBar :: number
  pending :: "real list"
  nextTimer :: nat

subsection \<open>Autoplay\<close>

definition stopAutoplay :: "carousel \<Rightarrow> carousel" where
  "stopAutoplay c =
     (case autoplayTimer c of
        Some t \<Rightarrow> c\<lparr> autoplayTimer := None \<rparr>
      | None \<Rightarrow> c)"

definition startAutoplay :: "carousel \<Rightarrow> carousel" where
  "startAutoplay c =
     (let c1 = stopAutoplay c in
      c1\<lparr> autoplayTimer := Some (nextTimer c1), nextTimer := nextTimer c1 + 1 \<rparr>)"

definition resetAutoplay :: "carousel \<Rightarrow> carousel" where
  "resetAutoplay c = (if autoplay (cconfig c) then startAutoplay c else c)"

subsection \<open>Update and animation\<close>

text \<open>The body of the \<^verbatim>\<open>forEach\<close> of \<^verbatim>\<open>updateItemStates\<close>, for the item at \<open>index\<close>.\<close>

definition item_style_at :: "int \<Rightarrow> int \<Rightarrow> item_style" where
  "item_style_at index current =
     (let distance = \<bar>index - current\<bar> in
      \<lparr> stateClass = Some (if index = current then Active
                            else if distance = 1 then Adjacent
                            else Distant),
        rotateY = (index - current) * 15,
        item_scale = 1 - real_of_int distance * 0.1,
        item_opacity = 1 - real_of_int distance * 0.3,
        zIndex = Some (100 - distance) \<rparr>)"

definition updateItemStates :: "carousel \<Rightarrow> carousel" where
  "updateItemStates c =
     c\<lparr> items := map (\<lambda>index. item_style_at (int index) (currentIndex c)) [0 ..< length (items c)] \<rparr>"

definition updateProgress :: "carousel \<Rightarrow> carousel" where
  "updateProgress c =
     (let progress = times_100 (divide_number (real_of_int (currentIndex c + 1)) (real_of_int (totalItems c)))
      in c\<lparr> progressBar := progress \<rparr>)"

text \<open>
  \<^verbatim>\<open>updateCarousel(animate)\<close>. With \<^verbatim>\<open>animate\<close> the flag \<^verbatim>\<open>isAnimating\<close> is set and an
  animation is started, whose \<^verbatim>\<open>onfinish\<close> callback runs later; without, the transform
  is written at once.
\<close>

definition updateCarousel :: "bool \<Rightarrow> carousel \<Rightarrow> carousel" where
  "updateCarousel animate c =
     (let offset = - real_of_int (currentIndex c) * (itemWidth (cconfig c) + itemGap (cconfig c));
          c1 = (if animate then c\<lparr> isAnimating := True, pending := pending c @ [offset] \<rparr>
                else c\<lparr> trackTransform := offset \<rparr>)
      in updateProgress (updateItemStates c1))"

text \<open>The \<^verbatim>\<open>onfinish\<close> callback of an animation started with \<open>offset\<close>.\<close>

definition onfinish :: "real \<Rightarrow> carousel \<Rightarrow> carousel" where
  "onfinish offset c = c\<lparr> trackTransform := offset, isAnimating := False \<rparr>"

text \<open>Every animation in flight has finished, in the order they were started.\<close>

definition settle :: "carousel \<Rightarrow> carousel" where
  "settle c = fold onfinish (pending c) (c\<lparr> pending := [] \<rparr>)"

subsection \<open>Navigation\<close>

text \<open>Navigate to previous item.\<close>

definition prev :: "carousel \<Rightarrow> carousel" where
  "prev c =
     (if isAnimating c then c
      else
        let c1 = c\<lparr> currentIndex := currentIndex c - 1 \<rparr>;
            c2 = (if currentIndex c1 < 0
                  then c1\<lparr> currentIndex := (if loop (cconfig c1) then totalItems c1 - 1 else 0) \<rparr>
                  else c1)
        in resetAutoplay (updateCarousel True c2))"

text \<open>Navigate to next item: the method \<^verbatim>\<open>next\<close> of the source.\<close>

definition next_item :: "carousel \<Rightarrow> carousel" where
  "next_item c =
     (if isAnimating c then c
      else
        let c1 = c\<lparr> currentIndex := currentIndex c + 1 \<rparr>;
            c2 = (if currentIndex c1 \<ge> totalItems c1
                  then c1\<lparr> currentIndex := (if loop (cconfig c1) then 0 else totalItems c1 - 1) \<rparr>
                  else c1)
        in resetAutoplay (updateCarousel True c2))"

text \<open>Navigate to specific index.\<close>

definition goTo :: "int \<Rightarrow> carousel \<Rightarrow> carousel" where
  "goTo index c =
     (if isAnimating c \<or> index = currentIndex c then c
      else
        let c1 = c\<lparr> currentIndex := max 0 (min index (totalItems c - 1)) \<rparr>
        in resetAutoplay (updateCarousel True c1))"

subsection \<open>Construction\<close>

text \<open>
  \<^verbatim>\<open>init\<close> registers the listeners, positions the carousel without animation and
  starts the autoplay if it is configured. The constructor is given the number \<open>n\<close> of
  \<^verbatim>\<open>.carousel-item\<close> elements of the track.
\<close>

definition init :: "carousel \<Rightarrow> carousel" where
  "init c =
     (let c1 = updateCarousel False c
      in if autoplay (cconfig c1) then startAutoplay c1 else c1)"

definition Carousel3D :: "nat \<Rightarrow> carousel_config \<Rightarrow> carousel" where
  "Carousel3D n cfg =
     init \<lparr> cconfig = cfg, currentIndex = 0, totalItems = int n, isAnimating = False,
            autoplayTimer = None, isDragging = False, startX = 0, currentX = 0,
            dragDistance = 0, items = replicate n unstyled, trackTransform = 0,
            trackCursor = [], trackUserSelect = [], progressBar = Finite 0, pending = [],
            nextTimer = 1 \<rparr>"

subsection \<open>Drag and swipe\<close>

text \<open>
  The object a drag handler is given. \<^verbatim>\<open>setupDrag\<close> registers mouse listeners, which pass
  their \<^verbatim>\<open>MouseEvent\<close>, and touch listeners, which pass a \<^verbatim>\<open>Touch\<close> taken out of their
  event (\<^verbatim>\<open>e.touches[0]\<close>, \<^verbatim>\<open>e.changedTouches[0]\<close>). Both kinds of object carry
  \<^verbatim>\<open>clientX\<close> and \<^verbatim>\<open>pageX\<close>; only an event has the method \<^verbatim>\<open>preventDefault\<close>. The
  handlers read \<^verbatim>\<open>e.clientX || e.pageX\<close>: the page coordinate when the client coordinate
  is \<open>0\<close>.
\<close>

datatype pointer_kind = MouseEvent | Touch

record pointer =
  kind :: pointer_kind
  clientX :: real
  pageX :: real

definition pointer_x :: "pointer \<Rightarrow> real" where
  "pointer_x e = (if clientX e \<noteq> 0 then clientX e else pageX e)"

definition handleDragStart :: "pointer \<Rightarrow> carousel \<Rightarrow> carousel" where
  "handleDragStart e c =
     (if isAnimating c then c
      else
        let c1 = c\<lparr> isDragging := True, startX := pointer_x e \<rparr>;
            c2 = c1\<lparr> currentX := startX c1, trackCursor := ''grabbing'', trackUserSelect := ''none'' \<rparr>
        in stopAutoplay c2)"

text \<open>
  \<^verbatim>\<open>handleDragMove\<close> calls \<^verbatim>\<open>e.preventDefault()\<close> right after the test of \<^verbatim>\<open>isDragging\<close>
  and before it writes any field. On a \<^verbatim>\<open>Touch\<close> the method does not exist and the call
  throws a \<^verbatim>\<open>TypeError\<close>.
\<close>

datatype error = TypeError

definition handleDragMove :: "pointer \<Rightarrow> carousel \<Rightarrow> error + carousel" where
  "handleDragMove e c =
     (if \<not> isDragging c then Inr c
      else if kind e = Touch then Inl TypeError
      else
        let c1 = c\<lparr> currentX := pointer_x e \<rparr>;
            c2 = c1\<lparr> dragDistance := currentX c1 - startX c1 \<rparr>;
            currentOffset = - real_of_int (currentIndex c2) * (itemWidth (cconfig c2) + itemGap (cconfig c2))
        in Inr (c2\<lparr> trackTransform := currentOffset + dragDistance c2 \<rparr>))"

text \<open>
  The \<^verbatim>\<open>mousemove\<close> and \<^verbatim>\<open>touchmove\<close> listeners of \<^verbatim>\<open>setupDrag\<close>, which call
  \<^verbatim>\<open>handleDragMove\<close> with their object. An exception a listener throws ends the listener
  and is reported by the browser; the controller keeps the fields it had when the
  exception was thrown, for \<^verbatim>\<open>handleDragMove\<close> those it had before the call.
\<close>

definition move_listener :: "pointer \<Rightarrow> carousel \<Rightarrow> carousel" where
  "move_listener e c = (case handleDragMove e c of Inl err \<Rightarrow> c | Inr c' \<Rightarrow> c')"

text \<open>\<^verbatim>\<open>handleDragEnd\<close> does not read its event.\<close>

definition handleDragEnd :: "carousel \<Rightarrow> carousel" where
  "handleDragEnd c =
     (if \<not> isDragging c then c
      else
        let c1 = c\<lparr> isDragging := False, trackCursor := ''grab'', trackUserSelect := [] \<rparr>;
            c2 = (if \<bar>dragDistance c1\<bar> > dragThreshold (cconfig c1)
                  then (if dragDistance c1 > 0 then prev c1 else next_item c1)
                  else updateCarousel True c1);
            c3 = c2\<lparr> dragDistance := 0 \<rparr>
        in if autoplay (cconfig c3) then startAutoplay c3 else c3)"

section \<open>Notions used in the statements\<close>

subsection \<open>Particle field\<close>

text \<open>
  The distance \<^verbatim>\<open>update\<close> computes between the mouse at \<open>(mx, my)\<close> and a particle, and
  the condition under which the mouse acts on a particle at its present position.
\<close>

definition mouse_distance :: "real \<Rightarrow> real \<Rightarrow> particle_state \<Rightarrow> real" where
  "mouse_distance mx my p =
     (let dx = mx - p_x p; dy = my - p_y p in sqrt (dx * dx + dy * dy))"

definition in_mouse_range :: "mouse \<Rightarrow> particle_state \<Rightarrow> bool" where
  "in_mouse_range m p =
     (case (m_x m, m_y m) of
        (Some mx, Some my) \<Rightarrow> mouse_distance mx my p < m_radius m
      | _ \<Rightarrow> False)"

text \<open>The largest speed component a particle can leave \<^verbatim>\<open>update\<close> with.\<close>

definition max_velocity :: "pconfig \<Rightarrow> real" where
  "max_velocity cfg = particleSpeed cfg * 2 + mouseForce cfg"

definition velocity_bounded :: "pconfig \<Rightarrow> particle_state \<Rightarrow> bool" where
  "velocity_bounded cfg p = (\<bar>p_vx p\<bar> \<le> max_velocity cfg \<and> \<bar>p_vy p\<bar> \<le> max_velocity cfg)"

text \<open>The canvas widened by \<open>k\<close> on every side; \<open>k = 0\<close> is the canvas itself.\<close>

definition within_margin :: "canvas \<Rightarrow> real \<Rightarrow> particle_state \<Rightarrow> bool" where
  "within_margin cv k p =
     (- k \<le> p_x p \<and> p_x p \<le> real (width cv) + k \<and>
      - k \<le> p_y p \<and> p_y p \<le> real (height cv) + k)"

text \<open>Euclidean distance and position of particles.\<close>

definition distance_between :: "particle_state \<Rightarrow> particle_state \<Rightarrow> real" where
  "distance_between p q = sqrt ((p_x p - p_x q)\<^sup>2 + (p_y p - p_y q)\<^sup>2)"

definition position :: "particle_state \<Rightarrow> real \<times> real" where
  "position p = (p_x p, p_y p)"

subsection \<open>Concrete particle fields\<close>

definition demo_canvas :: canvas where
  "demo_canvas = \<lparr> width = 200, height = 200 \<rparr>"

text \<open>The particle the constructor builds when every draw is \<open>0\<close>: it sits in a corner.\<close>

definition corner_particle :: particle_state where
  "corner_particle = fst (Particle demo_canvas config (sconst 0))"

text \<open>A particle at full clamped speed to the left, and a mouse 75 pixels to the right
  of where it will be after its move.\<close>

definition pushed_particle :: particle_state where
  "pushed_particle = \<lparr> p_x = 101, p_y = 100, p_vx = - 1, p_vy = 0, p_size = 2, p_opacity = 1 \<rparr>"

definition mouse_right :: mouse where
  "mouse_right = mousemove (mouse_init config) 175 100"

text \<open>A particle on the left edge moving right at full clamped speed, and a mouse on
  its line, half a pixel beyond the radius.\<close>

definition drifting_particle :: particle_state where
  "drifting_particle = \<lparr> p_x = 0, p_y = 100, p_vx = 1, p_vy = 0, p_size = 2, p_opacity = 1 \<rparr>"

definition mouse_beyond :: mouse where
  "mouse_beyond = mousemove (mouse_init config) 150.5 100"

text \<open>Three particles at rest: the first two 60 apart, the third 200 away from the first.\<close>

definition resting :: "real \<Rightarrow> real \<Rightarrow> particle_state" where
  "resting a b = \<lparr> p_x = a, p_y = b, p_vx = 0, p_vy = 0, p_size = 2, p_opacity = 1 \<rparr>"

definition three_particles :: "particle_state list" where
  "three_particles = [resting 0 0, resting 60 0, resting 200 0]"

subsection \<open>Carousel\<close>

text \<open>The invariant of the current index, in its two readings.\<close>

definition index_invariant :: "carousel \<Rightarrow> bool" where
  "index_invariant c =
     (if loop (cconfig c) then 0 \<le> currentIndex c \<and> currentIndex c < totalItems c
      else 0 \<le> currentIndex c \<and> currentIndex c \<le> totalItems c - 1)"

text \<open>
  What \<^verbatim>\<open>handleDragEnd\<close> does around the navigation: the drag state is reset and the
  autoplay restarted if it is configured.
\<close>

definition drag_finish :: "carousel \<Rightarrow> carousel" where
  "drag_finish s =
     (let s1 = s\<lparr> isDragging := False, trackCursor := ''grab'', trackUserSelect := [],
                    dragDistance := 0 \<rparr>
      in if autoplay (cconfig s1) then startAutoplay s1 else s1)"

subsection \<open>Concrete carousels\<close>

definition five_items :: carousel where
  "five_items = Carousel3D 5 carouselConfig"

definition five_items_no_loop :: carousel where
  "five_items_no_loop = Carousel3D 5 (carouselConfig\<lparr> loop := False \<rparr>)"

definition no_items :: carousel where
  "no_items = Carousel3D 0 carouselConfig"

text \<open>Five items, resting at index 2.\<close>

definition at_two :: carousel where
  "at_two = settle (goTo 2 five_items)"

text \<open>
  A drag in progress, by mouse or by touch: the pointer went down at \<open>x = 100\<close> and has
  moved by \<open>d\<close>.
\<close>

definition drag_by :: "pointer_kind \<Rightarrow> real \<Rightarrow> carousel \<Rightarrow> carousel" where
  "drag_by k d c =
     move_listener \<lparr> kind = k, clientX = 100 + d, pageX = 100 + d \<rparr>
       (handleDragStart \<lparr> kind = k, clientX = 100, pageX = 100 \<rparr> c)"

section \<open>Properties of the particle field\<close>

subsection \<open>What each phase of \<^verbatim>\<open>update\<close> changes\<close>

lemma update_unfold:
  "fst (update cv cfg m p g) =
     mouse_interaction cfg m (clamp_velocity cfg
       (fst (bounce_y cv (fst (bounce_x cv (move p) g)) (snd (bounce_x cv (move p) g)))))"
  by (simp add: update_def split_def Let_def)

lemma bounce_pos:
  "p_x (fst (bounce_x cv p g)) = p_x p \<and> p_y (fst (bounce_x cv p g)) = p_y p \<and>
   p_x (fst (bounce_y cv p g)) = p_x p \<and> p_y (fst (bounce_y cv p g)) = p_y p"
  by (simp add: bounce_x_def bounce_y_def)

lemma clamp_velocity_pos:
  "p_x (clamp_velocity cfg p) = p_x p \<and> p_y (clamp_velocity cfg p) = p_y p"
  by (simp add: clamp_velocity_def Let_def)

lemma mouse_interaction_pos:
  "p_x (mouse_interaction cfg m p) = p_x p \<and> p_y (mouse_interaction cfg m p) = p_y p"
  by (simp add: mouse_interaction_def Let_def split: option.splits)

lemma update_pos:
  "p_x (fst (update cv cfg m p g)) = p_x p + p_vx p \<and>
   p_y (fst (update cv cfg m p g)) = p_y p + p_vy p"
  by (simp add: update_unfold mouse_interaction_pos clamp_velocity_pos bounce_pos move_def)

lemma update_size_opacity:
  "p_size (fst (update cv cfg m p g)) = p_size p \<and>
   p_opacity (fst (update cv cfg m p g)) = p_opacity p"
  by (simp add: update_def move_def bounce_x_def bounce_y_def clamp_velocity_def
      mouse_interaction_def Let_def split: prod.splits option.splits)

lemma step_map_size:
  "map p_size (fst (step cv cfg m ps g)) = map p_size ps \<and>
   map p_opacity (fst (step cv cfg m ps g)) = map p_opacity ps"
  by (induction ps arbitrary: g) (simp_all add: split_def Let_def update_size_opacity)

text \<open>A property every \<^verbatim>\<open>update\<close> establishes holds for the whole field after a frame.\<close>

lemma step_all:
  assumes "\<And>p g. Q (fst (update cv cfg m p g))"
  shows "\<forall>q\<in>set (fst (step cv cfg m ps g)). Q q"
  by (induction ps arbitrary: g) (simp_all add: split_def Let_def assms)

subsection \<open>Size and opacity\<close>

text \<open>
  C10. Every \<^verbatim>\<open>update\<close> call rewrites only the fields \<^verbatim>\<open>x\<close>, \<^verbatim>\<open>y\<close>, \<^verbatim>\<open>vx\<close>, \<^verbatim>\<open>vy\<close>:
  putting the old position and velocity back gives the old particle, so \<^verbatim>\<open>size\<close> and
  \<^verbatim>\<open>opacity\<close> are as the constructor left them, for every mouse state and every draw;
  and after any number of frames every particle of the field still has its size and
  its opacity.
\<close>

theorem update_frame_size_opacity:
  "(fst (update cv cfg m p g))\<lparr> p_x := p_x p, p_y := p_y p, p_vx := p_vx p, p_vy := p_vy p \<rparr> = p
   \<and> p_size (fst (update cv cfg m p g)) = p_size p
   \<and> p_opacity (fst (update cv cfg m p g)) = p_opacity p
   \<and> map p_size (fst (steps cv cfg ms ps g)) = map p_size ps
   \<and> map p_opacity (fst (steps cv cfg ms ps g)) = map p_opacity ps"
proof -
  have one: "(fst (update cv cfg m p g))\<lparr> p_x := p_x p, p_y := p_y p, p_vx := p_vx p, p_vy := p_vy p \<rparr> = p"
    by (simp add: update_def move_def bounce_x_def bounce_y_def clamp_velocity_def
        mouse_interaction_def Let_def split: prod.splits option.splits)
  have many: "map p_size (fst (steps cv cfg ms ps g)) = map p_size ps \<and>
      map p_opacity (fst (steps cv cfg ms ps g)) = map p_opacity ps"
  proof (induction ms arbitrary: ps g)
    case Nil
    show ?case by simp
  next
    case (Cons m' ms)
    show ?case
      using Cons.IH [of "fst (step cv cfg m' ps g)" "snd (step cv cfg m' ps g)"]
        step_map_size [of cv cfg m' ps g]
      by (simp add: split_def Let_def)
  qed
  from one many update_size_opacity [of cv cfg m p g] show ?thesis by simp
qed

theorem update_frame_size_opacity_witness:
  "p_size (fst (update demo_canvas config mouse_right pushed_particle (sconst 0))) = 2 \<and>
   p_opacity (fst (update demo_canvas config mouse_right pushed_particle (sconst 0))) = 1 \<and>
   map p_size (fst (steps demo_canvas config [mouse_right, mouse_init config]
     [pushed_particle, drifting_particle] (sconst 0))) = [2, 2]"
  using update_frame_size_opacity [where cv = demo_canvas and cfg = config and m = mouse_right
      and p = pushed_particle and g = "sconst 0" and ms = "[mouse_right, mouse_init config]"
      and ps = "[pushed_particle, drifting_particle]"]
  by (simp add: pushed_particle_def drifting_particle_def)

subsection \<open>Velocity\<close>

lemma clamp_velocity_bound:
  "0 \<le> particleSpeed cfg \<Longrightarrow>
   \<bar>p_vx (clamp_velocity cfg p)\<bar> \<le> particleSpeed cfg * 2 \<and>
   \<bar>p_vy (clamp_velocity cfg p)\<bar> \<le> particleSpeed cfg * 2"
  by (simp add: clamp_velocity_def Let_def) linarith

text \<open>Inside the radius the force lies in \<open>(0, 1]\<close>, so a push changes a component by at
  most \<^verbatim>\<open>mouseForce\<close>.\<close>

lemma push_small:
  assumes "0 \<le> d" "d < r" "0 \<le> f" "\<bar>c\<bar> \<le> 1"
  shows "\<bar>c * ((r - d) / r) * f\<bar> \<le> (f::real)"
proof -
  from assms have r: "0 < r" by linarith
  with assms have "0 \<le> (r - d) / r" "(r - d) / r \<le> 1" by simp_all
  then have "\<bar>(r - d) / r\<bar> \<le> 1" by simp
  with assms(4) have "\<bar>c\<bar> * \<bar>(r - d) / r\<bar> \<le> 1 * 1"
    by (intro mult_mono) simp_all
  then have "\<bar>c\<bar> * \<bar>(r - d) / r\<bar> * \<bar>f\<bar> \<le> 1 * \<bar>f\<bar>"
    by (intro mult_right_mono) simp_all
  with assms(3) show ?thesis by (simp add: abs_mult)
qed

lemma mouse_interaction_far:
  "\<not> in_mouse_range m p \<Longrightarrow> mouse_interaction cfg m p = p"
  by (auto simp: mouse_interaction_def in_mouse_range_def mouse_distance_def Let_def
        split: option.splits)

lemma mouse_interaction_bound:
  assumes "0 \<le> mouseForce cfg"
  shows "\<bar>p_vx (mouse_interaction cfg m p)\<bar> \<le> \<bar>p_vx p\<bar> + mouseForce cfg \<and>
         \<bar>p_vy (mouse_interaction cfg m p)\<bar> \<le> \<bar>p_vy p\<bar> + mouseForce cfg"
proof (cases "in_mouse_range m p")
  case False
  then have "mouse_interaction cfg m p = p" by (rule mouse_interaction_far)
  with assms show ?thesis by simp
next
  case True
  then obtain mx my where mm: "m_x m = Some mx" "m_y m = Some my"
    and near: "mouse_distance mx my p < m_radius m"
    by (auto simp: in_mouse_range_def split: option.splits)
  define d where "d = mouse_distance mx my p"
  define a where "a = atan2 (my - p_y p) (mx - p_x p)"
  have d0: "0 \<le> d" by (simp add: d_def mouse_distance_def Let_def)
  have dr: "d < m_radius m" using near by (simp add: d_def)
  have vx: "p_vx (mouse_interaction cfg m p) =
      p_vx p - cos a * ((m_radius m - d) / m_radius m) * mouseForce cfg"
    and vy: "p_vy (mouse_interaction cfg m p) =
      p_vy p - sin a * ((m_radius m - d) / m_radius m) * mouseForce cfg"
    using mm dr by (simp_all add: mouse_interaction_def mouse_distance_def Let_def d_def a_def)
  have "\<bar>cos a * ((m_radius m - d) / m_radius m) * mouseForce cfg\<bar> \<le> mouseForce cfg"
    by (rule push_small [OF d0 dr assms]) simp
  moreover have "\<bar>sin a * ((m_radius m - d) / m_radius m) * mouseForce cfg\<bar> \<le> mouseForce cfg"
    by (rule push_small [OF d0 dr assms]) simp
  ultimately show ?thesis unfolding vx vy by linarith
qed

lemma in_mouse_range_pos:
  "p_x q = p_x p \<Longrightarrow> p_y q = p_y p \<Longrightarrow> in_mouse_range m q = in_mouse_range m p"
  by (simp add: in_mouse_range_def mouse_distance_def Let_def split: option.splits)

lemma update_velocity:
  assumes "0 \<le> particleSpeed cfg" and "0 \<le> mouseForce cfg"
  shows "\<bar>p_vx (fst (update cv cfg m p g))\<bar> \<le> particleSpeed cfg * 2 + mouseForce cfg
       \<and> \<bar>p_vy (fst (update cv cfg m p g))\<bar> \<le> particleSpeed cfg * 2 + mouseForce cfg
       \<and> (\<not> in_mouse_range m (move p) \<longrightarrow>
            \<bar>p_vx (fst (update cv cfg m p g))\<bar> \<le> particleSpeed cfg * 2
          \<and> \<bar>p_vy (fst (update cv cfg m p g))\<bar> \<le> particleSpeed cfg * 2)"
proof -
  define q where "q = clamp_velocity cfg
    (fst (bounce_y cv (fst (bounce_x cv (move p) g)) (snd (bounce_x cv (move p) g))))"
  have u: "fst (update cv cfg m p g) = mouse_interaction cfg m q"
    by (simp add: update_unfold q_def)
  have qb: "\<bar>p_vx q\<bar> \<le> particleSpeed cfg * 2 \<and> \<bar>p_vy q\<bar> \<le> particleSpeed cfg * 2"
    unfolding q_def by (rule clamp_velocity_bound [OF assms(1)])
  have qpos: "p_x q = p_x (move p)" "p_y q = p_y (move p)"
    by (simp_all add: q_def clamp_velocity_pos bounce_pos)
  have far: "\<not> in_mouse_range m (move p) \<Longrightarrow> mouse_interaction cfg m q = q"
    using in_mouse_range_pos [OF qpos] mouse_interaction_far by simp
  from mouse_interaction_bound [OF assms(2), of m q] qb far show ?thesis
    unfolding u by auto
qed

lemma sqrt_5625: "sqrt 5625 = 75"
  by (rule real_sqrt_unique) simp_all

text \<open>
  C2, as stated, fails. \<^verbatim>\<open>update\<close> clamps the velocity and applies the mouse force
  afterwards. The particle moves left at the clamped speed \<open>1 = 2 \<times> 0.5\<close>; after its
  move the mouse is 75 pixels to its right, half the radius, so the force is \<open>0.5\<close> and
  the push \<open>0.25\<close> to the left: the particle leaves the call with \<open>vx = -1.25\<close>.
\<close>

theorem velocity_exceeds_clamp_after_mouse_push:
  "\<bar>p_vx pushed_particle\<bar> \<le> 2 * particleSpeed config \<and>
   p_vx (fst (update demo_canvas config mouse_right pushed_particle (sconst 0))) = - 1.25 \<and>
   \<not> \<bar>p_vx (fst (update demo_canvas config mouse_right pushed_particle (sconst 0)))\<bar>
        \<le> 2 * particleSpeed config"
  by (simp add: update_def move_def bounce_x_def bounce_y_def clamp_velocity_def
      mouse_interaction_def atan2_def Let_def demo_canvas_def pushed_particle_def
      mouse_right_def mousemove_def mouse_init_def config_def sqrt_5625)

text \<open>
  C2, amended. With a base speed and a mouse force that are not negative, after every
  \<^verbatim>\<open>update\<close>, for every mouse state, \<open>|vx|\<close> and \<open>|vy|\<close> are at most
  \<open>2 \<times> base speed + mouse force\<close>; they are at most \<open>2 \<times> base speed\<close> when the mouse
  is absent or not within its radius of the particle's moved position. The same bounds
  hold for every particle of the field after a frame.
\<close>

theorem velocity_bound_after_step:
  assumes "0 \<le> particleSpeed cfg" and "0 \<le> mouseForce cfg"
  shows "\<bar>p_vx (fst (update cv cfg m p g))\<bar> \<le> particleSpeed cfg * 2 + mouseForce cfg
       \<and> \<bar>p_vy (fst (update cv cfg m p g))\<bar> \<le> particleSpeed cfg * 2 + mouseForce cfg
       \<and> (\<not> in_mouse_range m (move p) \<longrightarrow>
            \<bar>p_vx (fst (update cv cfg m p g))\<bar> \<le> particleSpeed cfg * 2
          \<and> \<bar>p_vy (fst (update cv cfg m p g))\<bar> \<le> particleSpeed cfg * 2)
       \<and> (\<forall>q\<in>set (fst (step cv cfg m ps g)).
            \<bar>p_vx q\<bar> \<le> particleSpeed cfg * 2 + mouseForce cfg
          \<and> \<bar>p_vy q\<bar> \<le> particleSpeed cfg * 2 + mouseForce cfg)
       \<and> (m_x m = None \<or> m_y m = None \<longrightarrow>
            (\<forall>q\<in>set (fst (step cv cfg m ps g)).
               \<bar>p_vx q\<bar> \<le> particleSpeed cfg * 2 \<and> \<bar>p_vy q\<bar> \<le> particleSpeed cfg * 2))"
proof -
  note one = update_velocity [OF assms, where m = m]
  have field: "\<forall>q\<in>set (fst (step cv cfg m ps g)).
            \<bar>p_vx q\<bar> \<le> particleSpeed cfg * 2 + mouseForce cfg
          \<and> \<bar>p_vy q\<bar> \<le> particleSpeed cfg * 2 + mouseForce cfg"
    by (rule step_all) (simp add: one)
  have absent: "\<forall>q\<in>set (fst (step cv cfg m ps g)).
               \<bar>p_vx q\<bar> \<le> particleSpeed cfg * 2 \<and> \<bar>p_vy q\<bar> \<le> particleSpeed cfg * 2"
    if "m_x m = None \<or> m_y m = None"
  proof (rule step_all)
    fix p' g'
    from that have "\<not> in_mouse_range m (move p')"
      by (auto simp: in_mouse_range_def split: option.splits)
    with one [where p = p' and cv = cv and g = g']
    show "\<bar>p_vx (fst (update cv cfg m p' g'))\<bar> \<le> particleSpeed cfg * 2 \<and>
          \<bar>p_vy (fst (update cv cfg m p' g'))\<bar> \<le> particleSpeed cfg * 2"
      by simp
  qed
  from one [where p = p and cv = cv and g = g] field absent show ?thesis by blast
qed

theorem velocity_bound_after_step_witness:
  "0 \<le> particleSpeed config \<and> 0 \<le> mouseForce config \<and>
   \<bar>p_vx (fst (update demo_canvas config mouse_right pushed_particle (sconst 0)))\<bar>
      \<le> particleSpeed config * 2 + mouseForce config \<and>
   \<not> in_mouse_range (mouse_init config) (move pushed_particle) \<and>
   \<bar>p_vx (fst (update demo_canvas config (mouse_init config) pushed_particle (sconst 0)))\<bar>
      \<le> particleSpeed config * 2 \<and>
   m_x (mouse_init config) = None \<and>
   \<bar>p_vx (hd (fst (step demo_canvas config (mouse_init config) [pushed_particle] (sconst 0))))\<bar>
      \<le> particleSpeed config * 2"
proof -
  have h: "0 \<le> particleSpeed config" "0 \<le> mouseForce config"
    by (simp_all add: config_def)
  have far: "\<not> in_mouse_range (mouse_init config) (move pushed_particle)"
    and none: "m_x (mouse_init config) = None"
    by (simp_all add: in_mouse_range_def mouse_init_def)
  have "hd (fst (step demo_canvas config (mouse_init config) [pushed_particle] (sconst 0)))
      \<in> set (fst (step demo_canvas config (mouse_init config) [pushed_particle] (sconst 0)))"
    by (simp add: split_def Let_def)
  with h far none
    velocity_bound_after_step [OF h, where m = mouse_right and p = pushed_particle
      and cv = demo_canvas and g = "sconst 0"]
    velocity_bound_after_step [OF h, where m = "mouse_init config" and p = pushed_particle
      and cv = demo_canvas and g = "sconst 0" and ps = "[pushed_particle]"]
  show ?thesis by blast
qed

subsection \<open>Position\<close>

lemma update_velocity_bounded:
  assumes "0 \<le> particleSpeed cfg" and "0 \<le> mouseForce cfg"
  shows "velocity_bounded cfg (fst (update cv cfg m p g))"
  using update_velocity [OF assms, where m = m and p = p and cv = cv and g = g]
  by (simp add: velocity_bounded_def max_velocity_def)

lemma update_within_margin:
  "velocity_bounded cfg p \<Longrightarrow> within_margin cv k p \<Longrightarrow>
   within_margin cv (k + max_velocity cfg) (fst (update cv cfg m p g))"
  unfolding velocity_bounded_def within_margin_def
  using update_pos [of cv cfg m p g] by (simp add: abs_le_iff)

lemma step_within_margin:
  assumes "0 \<le> particleSpeed cfg" and "0 \<le> mouseForce cfg"
  shows "\<forall>p\<in>set ps. velocity_bounded cfg p \<and> within_margin cv k p \<Longrightarrow>
    \<forall>q\<in>set (fst (step cv cfg m ps g)).
      velocity_bounded cfg q \<and> within_margin cv (k + max_velocity cfg) q"
proof (induction ps arbitrary: g)
  case Nil
  show ?case by simp
next
  case (Cons p ps)
  from Cons.prems have "velocity_bounded cfg p" "within_margin cv k p" by simp_all
  then have hd: "within_margin cv (k + max_velocity cfg) (fst (update cv cfg m p g))"
    by (rule update_within_margin)
  have vb: "velocity_bounded cfg (fst (update cv cfg m p g))"
    by (rule update_velocity_bounded [OF assms])
  from Cons.prems have "\<forall>p\<in>set ps. velocity_bounded cfg p \<and> within_margin cv k p" by simp
  from Cons.IH [OF this, of "snd (update cv cfg m p g)"] hd vb
  show ?case by (simp add: split_def Let_def)
qed

lemma steps_within_margin:
  assumes "0 \<le> particleSpeed cfg" and "0 \<le> mouseForce cfg"
  shows "\<forall>p\<in>set ps. velocity_bounded cfg p \<and> within_margin cv k p \<Longrightarrow>
    \<forall>q\<in>set (fst (steps cv cfg ms ps g)).
      velocity_bounded cfg q \<and> within_margin cv (k + real (length ms) * max_velocity cfg) q"
proof (induction ms arbitrary: ps g k)
  case Nil
  then show ?case by simp
next
  case (Cons m ms)
  have "\<forall>q\<in>set (fst (step cv cfg m ps g)).
      velocity_bounded cfg q \<and> within_margin cv (k + max_velocity cfg) q"
    by (rule step_within_margin [OF assms Cons.prems])
  from Cons.IH [OF this, of "snd (step cv cfg m ps g)"]
  show ?case by (simp add: split_def Let_def algebra_simps)
qed

text \<open>Every particle the constructor builds lies on the canvas, at a bounded velocity.\<close>

lemma Particle_inside:
  assumes "random_ok g" and "0 \<le> particleSpeed cfg" and "0 \<le> mouseForce cfg"
  shows "within_margin cv 0 (fst (Particle cv cfg g)) \<and> velocity_bounded cfg (fst (Particle cv cfg g))"
proof -
  have r: "0 \<le> g !! n \<and> g !! n < 1" for n
  proof -
    have "g !! n \<in> sset g" by (rule snth_sset)
    with assms(1) have "g !! n \<in> {0 ..< 1}" unfolding random_ok_def by blast
    then show ?thesis by simp
  qed
  have "\<bar>(g !! n - 0.5) * particleSpeed cfg\<bar> \<le> 1 * particleSpeed cfg" for n
    unfolding abs_mult using r [of n] assms(2)
    by (intro mult_mono) (simp_all add: abs_le_iff)
  then have e: "\<bar>(g !! n - 0.5) * particleSpeed cfg\<bar> \<le> particleSpeed cfg" for n
    by simp
  have v: "\<bar>(g !! n - 0.5) * particleSpeed cfg\<bar> \<le> max_velocity cfg" for n
    using e [of n] assms(2,3) unfolding max_velocity_def by linarith
  have "g !! n * real k \<le> 1 * real k" for n k
    using r [of n] by (intro mult_right_mono) simp_all
  then have p: "0 \<le> g !! n * real k \<and> g !! n * real k \<le> real k" for n k
    using r [of n] by simp
  show ?thesis
    using v [of 2] v [of 3] p [of 0 "width cv"] p [of 1 "height cv"]
    by (simp add: Particle_def within_margin_def velocity_bounded_def)
qed

lemma sset_sdrop_subset: "sset (sdrop n s) \<subseteq> sset s"
  by (auto simp: sset_range sdrop_snth)

lemma initParticles_inside:
  assumes "0 \<le> particleSpeed cfg" and "0 \<le> mouseForce cfg"
  shows "random_ok g \<Longrightarrow>
    \<forall>p\<in>set (fst (initParticles_loop cv cfg n g)). within_margin cv 0 p \<and> velocity_bounded cfg p"
proof (induction n arbitrary: g)
  case 0
  show ?case by simp
next
  case (Suc n)
  have "sset (sdrop 6 g) \<subseteq> sset g" by (rule sset_sdrop_subset)
  with Suc.prems have "random_ok (snd (Particle cv cfg g))"
    by (auto simp: random_ok_def Particle_def)
  from Suc.IH [OF this] Particle_inside [OF Suc.prems assms, of cv]
  show ?case by (simp add: split_def Let_def)
qed

lemma corner_particle_eq:
  "corner_particle = \<lparr> p_x = 0, p_y = 0, p_vx = - 0.25, p_vy = - 0.25, p_size = 1.6, p_opacity = 0.3 \<rparr>"
  by (simp add: corner_particle_def Particle_def config_def demo_canvas_def)

text \<open>
  C1, as stated, fails. \<^verbatim>\<open>update\<close> moves the particle and, outside the canvas, inverts
  its velocity; it never writes a position back inside. The particle built from draws
  that are all \<open>0\<close> sits at \<open>(0, 0)\<close> with velocity \<open>(-0.25, -0.25)\<close>; one call, with the
  mouse absent, leaves it at \<open>x = -0.25\<close>.
\<close>

theorem position_leaves_canvas:
  "0 \<le> p_x corner_particle \<and> p_x corner_particle \<le> real (width demo_canvas) \<and>
   0 \<le> p_y corner_particle \<and> p_y corner_particle \<le> real (height demo_canvas) \<and>
   p_x (fst (update demo_canvas config (mouse_init config) corner_particle (sconst 0))) = - 0.25 \<and>
   \<not> 0 \<le> p_x (fst (update demo_canvas config (mouse_init config) corner_particle (sconst 0)))"
  by (simp add: corner_particle_eq update_def move_def bounce_x_def bounce_y_def
      clamp_velocity_def mouse_interaction_def mouse_init_def config_def demo_canvas_def Let_def)

text \<open>
  C1, amended. Let \<open>V = 2 \<times> base speed + mouse force\<close>, neither of the two negative.
  For particles that start on the canvas with \<open>|vx|\<close> and \<open>|vy|\<close> at most \<open>V\<close> (as every
  constructed particle does), after \<open>n\<close> frames, with any mouse state in each frame and
  any draws, every particle satisfies \<open>- n V \<le> x \<le> width + n V\<close> and
  \<open>- n V \<le> y \<le> height + n V\<close>: a frame moves a particle by its velocity and does not put
  it back on the canvas.
\<close>

theorem position_within_widening_margin:
  assumes "0 \<le> particleSpeed cfg" and "0 \<le> mouseForce cfg"
    and "\<forall>p\<in>set ps. within_margin cv 0 p \<and> velocity_bounded cfg p"
  shows "\<forall>q\<in>set (fst (steps cv cfg ms ps g)).
           within_margin cv (real (length ms) * max_velocity cfg) q"
proof -
  from assms(3) have "\<forall>p\<in>set ps. velocity_bounded cfg p \<and> within_margin cv 0 p" by simp
  from steps_within_margin [OF assms(1,2) this, of ms g] show ?thesis by simp
qed

theorem position_within_widening_margin_witness:
  "0 \<le> particleSpeed config \<and> 0 \<le> mouseForce config \<and>
   within_margin demo_canvas 0 corner_particle \<and> velocity_bounded config corner_particle \<and>
   max_velocity config = 1.5 \<and>
   within_margin demo_canvas (real (length [mouse_right, mouse_init config]) * max_velocity config)
     (hd (fst (steps demo_canvas config [mouse_right, mouse_init config] [corner_particle] (sconst 0))))"
proof -
  have h: "0 \<le> particleSpeed config" "0 \<le> mouseForce config"
    "\<forall>p\<in>set [corner_particle]. within_margin demo_canvas 0 p \<and> velocity_bounded config p"
    by (simp_all add: config_def corner_particle_eq within_margin_def velocity_bounded_def
        max_velocity_def demo_canvas_def)
  have v: "max_velocity config = 1.5" by (simp add: max_velocity_def config_def)
  have "hd (fst (steps demo_canvas config [mouse_right, mouse_init config] [corner_particle] (sconst 0)))
      \<in> set (fst (steps demo_canvas config [mouse_right, mouse_init config] [corner_particle] (sconst 0)))"
    by (simp add: split_def Let_def)
  with position_within_widening_margin [OF h, of "[mouse_right, mouse_init config]" "sconst 0"]
  have "within_margin demo_canvas (real (length [mouse_right, mouse_init config]) * max_velocity config)
     (hd (fst (steps demo_canvas config [mouse_right, mouse_init config] [corner_particle] (sconst 0))))"
    by blast
  with h v show ?thesis by simp
qed

subsection \<open>Connections\<close>

lemma distance_between_sym: "distance_between p q = distance_between q p"
  by (simp add: distance_between_def power2_commute)

lemma pair_connection_eq:
  "pair_connection cfg p q =
     (if distance_between p q < connectionDistance cfg then
        [\<lparr> strokeStyle = connection (colors cfg),
            globalAlpha = (1 - distance_between p q / connectionDistance cfg) * 0.5,
            lineWidth = 1, moveTo = position p, lineTo = position q,
            opacity = 1 - distance_between p q / connectionDistance cfg \<rparr>]
      else [])"
  by (simp add: pair_connection_def distance_between_def position_def Let_def power2_eq_square)

lemma mouse_connection_lineWidth: "s \<in> set (mouse_connection cfg m p) \<Longrightarrow> lineWidth s = 2"
  by (auto simp: mouse_connection_def Let_def split: option.splits if_splits)

lemma in_connectParticles_iff:
  "s \<in> set (connectParticles cfg m ps) \<longleftrightarrow>
     (\<exists>i<length ps. (\<exists>j. i < j \<and> j < length ps \<and> s \<in> set (pair_connection cfg (ps ! i) (ps ! j)))
         \<or> s \<in> set (mouse_connection cfg m (ps ! i)))"
proof
  assume "s \<in> set (connectParticles cfg m ps)"
  then obtain xs where "s \<in> set xs"
    and "xs \<in> set (map (\<lambda>i. concat (map (\<lambda>j. pair_connection cfg (ps ! i) (ps ! j)) [i + 1 ..< length ps])
                       @ mouse_connection cfg m (ps ! i)) [0 ..< length ps])"
    unfolding connectParticles_def set_concat by blast
  then obtain i where i: "i < length ps"
    and "s \<in> set (concat (map (\<lambda>j. pair_connection cfg (ps ! i) (ps ! j)) [i + 1 ..< length ps])
                       @ mouse_connection cfg m (ps ! i))"
    by auto
  then have s: "(\<exists>j\<in>{i + 1 ..< length ps}. s \<in> set (pair_connection cfg (ps ! i) (ps ! j)))
              \<or> s \<in> set (mouse_connection cfg m (ps ! i))"
    by auto
  from s have "(\<exists>j. i < j \<and> j < length ps \<and> s \<in> set (pair_connection cfg (ps ! i) (ps ! j)))
         \<or> s \<in> set (mouse_connection cfg m (ps ! i))"
    by (auto simp: Suc_le_eq)
  with i show "\<exists>i<length ps. (\<exists>j. i < j \<and> j < length ps \<and> s \<in> set (pair_connection cfg (ps ! i) (ps ! j)))
         \<or> s \<in> set (mouse_connection cfg m (ps ! i))"
    by blast
next
  assume "\<exists>i<length ps. (\<exists>j. i < j \<and> j < length ps \<and> s \<in> set (pair_connection cfg (ps ! i) (ps ! j)))
         \<or> s \<in> set (mouse_connection cfg m (ps ! i))"
  then obtain i where i: "i < length ps"
    and s: "(\<exists>j. i < j \<and> j < length ps \<and> s \<in> set (pair_connection cfg (ps ! i) (ps ! j)))
         \<or> s \<in> set (mouse_connection cfg m (ps ! i))"
    by blast
  from s have "(\<exists>j\<in>{i + 1 ..< length ps}. s \<in> set (pair_connection cfg (ps ! i) (ps ! j)))
              \<or> s \<in> set (mouse_connection cfg m (ps ! i))"
    by (auto simp: Suc_le_eq)
  then have in_i: "s \<in> set (concat (map (\<lambda>j. pair_connection cfg (ps ! i) (ps ! j)) [i + 1 ..< length ps])
                       @ mouse_connection cfg m (ps ! i))"
    by auto
  define F where "F = (\<lambda>i. concat (map (\<lambda>j. pair_connection cfg (ps ! i) (ps ! j)) [i + 1 ..< length ps])
                       @ mouse_connection cfg m (ps ! i))"
  have "F i \<in> F ` {0 ..< length ps}" using i by (intro imageI) simp
  then have "F i \<in> set (map F [0 ..< length ps])" by simp
  moreover have "s \<in> set (F i)" using in_i by (simp add: F_def)
  ultimately have "s \<in> set (concat (map F [0 ..< length ps]))"
    unfolding set_concat by blast
  then show "s \<in> set (connectParticles cfg m ps)"
    by (simp add: connectParticles_def F_def)
qed

lemma pair_segment_origin:
  assumes "s \<in> set (connectParticles cfg m ps)" and "lineWidth s = 1"
  shows "\<exists>i j. i < j \<and> j < length ps \<and> s \<in> set (pair_connection cfg (ps ! i) (ps ! j))"
proof -
  from assms(1) obtain i where
    s: "(\<exists>j. i < j \<and> j < length ps \<and> s \<in> set (pair_connection cfg (ps ! i) (ps ! j)))
          \<or> s \<in> set (mouse_connection cfg m (ps ! i))"
    unfolding in_connectParticles_iff by blast
  from assms(2) mouse_connection_lineWidth [of s cfg m "ps ! i"]
  have "s \<notin> set (mouse_connection cfg m (ps ! i))" by auto
  with s show ?thesis by blast
qed

lemma distance_between_position:
  "position p = position p' \<Longrightarrow> position q = position q' \<Longrightarrow>
   distance_between p q = distance_between p' q'"
  by (simp add: position_def distance_between_def)

lemma distance_between_level:
  "p_y p = p_y q \<Longrightarrow> distance_between p q = \<bar>p_x p - p_x q\<bar>"
  by (simp add: distance_between_def)

text \<open>
  C3. In \<^verbatim>\<open>connectParticles\<close>, for every pair of particles \<open>i < j\<close> of the field at
  Euclidean distance \<open>d\<close>: if \<open>d\<close> is below \<^verbatim>\<open>connectionDistance\<close>, a segment from particle
  \<open>i\<close> to particle \<open>j\<close> is drawn whose \<^verbatim>\<open>opacity\<close> is \<open>1 - d / connectionDistance\<close> (the
  stroke is drawn in the connection colour, one pixel wide, at a \<^verbatim>\<open>globalAlpha\<close> of half
  that opacity); otherwise no particle-to-particle segment joins the two positions, in
  either direction. This holds for every mouse state.
\<close>

theorem connection_opacity:
  assumes "i < j" and "j < length ps"
  shows "(distance_between (ps ! i) (ps ! j) < connectionDistance cfg \<longrightarrow>
            \<lparr> strokeStyle = connection (colors cfg),
              globalAlpha = (1 - distance_between (ps ! i) (ps ! j) / connectionDistance cfg) * 0.5,
              lineWidth = 1, moveTo = position (ps ! i), lineTo = position (ps ! j),
              opacity = 1 - distance_between (ps ! i) (ps ! j) / connectionDistance cfg \<rparr>
            \<in> set (connectParticles cfg m ps))
       \<and> (connectionDistance cfg \<le> distance_between (ps ! i) (ps ! j) \<longrightarrow>
            \<not> (\<exists>s\<in>set (connectParticles cfg m ps). lineWidth s = 1 \<and>
                 {moveTo s, lineTo s} = {position (ps ! i), position (ps ! j)}))"
proof (intro conjI impI)
  assume near: "distance_between (ps ! i) (ps ! j) < connectionDistance cfg"
  let ?s = "\<lparr> strokeStyle = connection (colors cfg),
              globalAlpha = (1 - distance_between (ps ! i) (ps ! j) / connectionDistance cfg) * 0.5,
              lineWidth = 1, moveTo = position (ps ! i), lineTo = position (ps ! j),
              opacity = 1 - distance_between (ps ! i) (ps ! j) / connectionDistance cfg \<rparr>"
  from near have "?s \<in> set (pair_connection cfg (ps ! i) (ps ! j))"
    by (simp add: pair_connection_eq)
  moreover from assms have "i < length ps" by simp
  ultimately show "?s \<in> set (connectParticles cfg m ps)"
    unfolding in_connectParticles_iff using assms by blast
next
  assume far: "connectionDistance cfg \<le> distance_between (ps ! i) (ps ! j)"
  show "\<not> (\<exists>s\<in>set (connectParticles cfg m ps). lineWidth s = 1 \<and>
                 {moveTo s, lineTo s} = {position (ps ! i), position (ps ! j)})"
  proof
    assume "\<exists>s\<in>set (connectParticles cfg m ps). lineWidth s = 1 \<and>
                 {moveTo s, lineTo s} = {position (ps ! i), position (ps ! j)}"
    then obtain s where s: "s \<in> set (connectParticles cfg m ps)" "lineWidth s = 1"
      and ends: "{moveTo s, lineTo s} = {position (ps ! i), position (ps ! j)}" by blast
    from pair_segment_origin [OF s] obtain i' j' where
      o: "s \<in> set (pair_connection cfg (ps ! i') (ps ! j'))" by blast
    then have near: "distance_between (ps ! i') (ps ! j') < connectionDistance cfg"
      and mt: "moveTo s = position (ps ! i')" and lt: "lineTo s = position (ps ! j')"
      by (auto simp: pair_connection_eq split: if_splits)
    from ends have "(position (ps ! i') = position (ps ! i) \<and> position (ps ! j') = position (ps ! j))
        \<or> (position (ps ! i') = position (ps ! j) \<and> position (ps ! j') = position (ps ! i))"
      unfolding mt lt by (auto simp: doubleton_eq_iff)
    then have "distance_between (ps ! i') (ps ! j') = distance_between (ps ! i) (ps ! j)"
      using distance_between_position distance_between_sym by metis
    with near far show False by simp
  qed
qed

theorem connection_opacity_witness:
  "((0::nat) < 1 \<and> 1 < length three_particles \<and>
    distance_between (three_particles ! 0) (three_particles ! 1) = 60 \<and>
    distance_between (three_particles ! 0) (three_particles ! 1) < connectionDistance config \<and>
    \<lparr> strokeStyle = ''rgba(99, 102, 241, 0.15)'', globalAlpha = 0.25, lineWidth = 1,
      moveTo = (0, 0), lineTo = (60, 0), opacity = 0.5 \<rparr>
      \<in> set (connectParticles config mouse_right three_particles)) \<and>
   ((0::nat) < 2 \<and> 2 < length three_particles \<and>
    connectionDistance config \<le> distance_between (three_particles ! 0) (three_particles ! 2) \<and>
    \<not> (\<exists>s\<in>set (connectParticles config mouse_right three_particles). lineWidth s = 1 \<and>
          {moveTo s, lineTo s} = {(0, 0), (200, 0)}))"
proof -
  have l: "(0::nat) < 1" "1 < length three_particles" "(0::nat) < 2" "2 < length three_particles"
    by (simp_all add: three_particles_def)
  have d: "distance_between (three_particles ! 0) (three_particles ! 1) = 60"
    "distance_between (three_particles ! 0) (three_particles ! 2) = 200"
    by (simp_all add: three_particles_def resting_def distance_between_level)
  have c: "connectionDistance config = 120" "connection (colors config) = ''rgba(99, 102, 241, 0.15)''"
    by (simp_all add: config_def)
  have p: "position (three_particles ! 0) = (0, 0)" "position (three_particles ! 1) = (60, 0)"
    "position (three_particles ! 2) = (200, 0)"
    by (simp_all add: three_particles_def resting_def position_def)
  from connection_opacity [OF l(1,2), of config mouse_right]
    connection_opacity [OF l(3,4), of config mouse_right]
  show ?thesis unfolding d c p using l by simp
qed

subsection \<open>Mouse absent and mouse far away\<close>

lemma diff_square_swap: "(a - b) * (a - b) = (b - a) * (b - (a::real))"
  by (simp add: algebra_simps)

lemma mouse_connection_far:
  "m_x m = Some mx \<Longrightarrow> m_y m = Some my \<Longrightarrow> m_radius m \<le> mouse_distance mx my p \<Longrightarrow>
   mouse_connection cfg m p = []"
  by (simp add: mouse_connection_def mouse_distance_def Let_def
      diff_square_swap [of "p_x p" mx] diff_square_swap [of "p_y p" my])

lemma mouse_connection_absent: "mouse_connection cfg (mouseleave m) p = []"
  by (simp add: mouse_connection_def mouseleave_def)

lemma mouse_distance_level:
  "my = p_y p \<Longrightarrow> mouse_distance mx my p = \<bar>mx - p_x p\<bar>"
  by (simp add: mouse_distance_def Let_def)

lemma sqrt_89401_4: "sqrt (89401 / 4) = 299 / 2"
  by (rule real_sqrt_unique) (simp_all add: power2_eq_square)

text \<open>
  C6, as stated, fails for \<^verbatim>\<open>update\<close>. The mouse is on the particle's line, 150.5 pixels
  from the particle, beyond the radius of 150. \<^verbatim>\<open>update\<close> first moves the particle one
  pixel towards the mouse and measures the distance then: 149.5, inside the radius. The
  call with the mouse present pushes the particle back (\<open>vx = 599/600\<close>); the call with
  the mouse absent leaves \<open>vx = 1\<close>.
\<close>

theorem mouse_beyond_radius_before_move_differs:
  "m_x mouse_beyond = Some 150.5 \<and> m_y mouse_beyond = Some 100 \<and>
   mouse_distance 150.5 100 drifting_particle = 150.5 \<and>
   m_radius mouse_beyond \<le> mouse_distance 150.5 100 drifting_particle \<and>
   p_vx (fst (update demo_canvas config (mouseleave mouse_beyond) drifting_particle (sconst 0))) = 1 \<and>
   p_vx (fst (update demo_canvas config mouse_beyond drifting_particle (sconst 0))) = 599 / 600 \<and>
   update demo_canvas config mouse_beyond drifting_particle (sconst 0)
     \<noteq> update demo_canvas config (mouseleave mouse_beyond) drifting_particle (sconst 0)"
proof -
  have m: "m_x mouse_beyond = Some 150.5" "m_y mouse_beyond = Some 100" "m_radius mouse_beyond = 150"
    by (simp_all add: mouse_beyond_def mousemove_def mouse_init_def config_def)
  have d: "mouse_distance 150.5 100 drifting_particle = 150.5"
    by (simp add: mouse_distance_level drifting_particle_def)
  have a: "p_vx (fst (update demo_canvas config (mouseleave mouse_beyond) drifting_particle (sconst 0))) = 1"
    by (simp add: update_def move_def bounce_x_def bounce_y_def clamp_velocity_def
        mouse_interaction_def mouseleave_def Let_def demo_canvas_def drifting_particle_def
        config_def)
  have b: "p_vx (fst (update demo_canvas config mouse_beyond drifting_particle (sconst 0))) = 599 / 600"
    by (simp add: update_def move_def bounce_x_def bounce_y_def clamp_velocity_def
        mouse_interaction_def atan2_def Let_def demo_canvas_def drifting_particle_def
        mouse_beyond_def mousemove_def mouse_init_def config_def sqrt_89401_4)
  from a b have "update demo_canvas config mouse_beyond drifting_particle (sconst 0)
     \<noteq> update demo_canvas config (mouseleave mouse_beyond) drifting_particle (sconst 0)"
    by auto
  with m d a b show ?thesis by simp
qed

text \<open>
  C6, amended. For every particle state, \<^verbatim>\<open>update\<close> with the mouse absent gives exactly
  the result (particle and draws left) of \<^verbatim>\<open>update\<close> with the mouse present at a distance
  of at least the radius from the position the particle has after its move in that call,
  \<open>(x + vx, y + vy)\<close>. \<^verbatim>\<open>connectParticles\<close> draws the same segments with the mouse absent as
  with the mouse present at a distance of at least the radius from every particle.
\<close>

theorem mouse_absent_as_far:
  assumes "m_x m = Some mx" and "m_y m = Some my"
  shows "(m_radius m \<le> mouse_distance mx my (move p) \<longrightarrow>
            update cv cfg m p g = update cv cfg (mouseleave m) p g)
       \<and> ((\<forall>q\<in>set ps. m_radius m \<le> mouse_distance mx my q) \<longrightarrow>
            connectParticles cfg m ps = connectParticles cfg (mouseleave m) ps)"
proof (intro conjI impI)
  assume far: "m_radius m \<le> mouse_distance mx my (move p)"
  define q where "q = clamp_velocity cfg (fst (bounce_y cv (fst (bounce_x cv (move p) g)) (snd (bounce_x cv (move p) g))))"
  have qpos: "p_x q = p_x (move p)" "p_y q = p_y (move p)"
    by (simp_all add: q_def clamp_velocity_pos bounce_pos)
  from far assms have "\<not> in_mouse_range m (move p)"
    by (simp add: in_mouse_range_def)
  then have "\<not> in_mouse_range m q" using in_mouse_range_pos [OF qpos] by simp
  then have 1: "mouse_interaction cfg m q = q" by (rule mouse_interaction_far)
  have 2: "mouse_interaction cfg (mouseleave m) q = q"
    by (simp add: mouse_interaction_def mouseleave_def)
  show "update cv cfg m p g = update cv cfg (mouseleave m) p g"
    using 1 2 by (simp add: update_def split_def Let_def q_def)
next
  assume far: "\<forall>q\<in>set ps. m_radius m \<le> mouse_distance mx my q"
  have "mouse_connection cfg m (ps ! i) = mouse_connection cfg (mouseleave m) (ps ! i)"
    if "i < length ps" for i
    using that far mouse_connection_far [OF assms, of "ps ! i" cfg]
    by (simp add: mouse_connection_absent)
  then show "connectParticles cfg m ps = connectParticles cfg (mouseleave m) ps"
    unfolding connectParticles_def by (intro arg_cong [where f = concat] map_cong) simp_all
qed

theorem mouse_absent_as_far_witness:
  "(m_x mouse_right = Some 175 \<and> m_y mouse_right = Some 100) \<and>
   (m_radius mouse_right \<le> mouse_distance 175 100 (move (resting 10 100)) \<and>
    update demo_canvas config mouse_right (resting 10 100) (sconst 0)
      = update demo_canvas config (mouseleave mouse_right) (resting 10 100) (sconst 0)) \<and>
   (m_radius mouse_right \<le> mouse_distance 175 100 (resting 10 100) \<and>
    m_radius mouse_right \<le> mouse_distance 175 100 (resting 20 100) \<and>
    connectParticles config mouse_right [resting 10 100, resting 20 100]
      = connectParticles config (mouseleave mouse_right) [resting 10 100, resting 20 100])"
proof -
  have m: "m_x mouse_right = Some 175" "m_y mouse_right = Some 100" "m_radius mouse_right = 150"
    by (simp_all add: mouse_right_def mousemove_def mouse_init_def config_def)
  have far: "m_radius mouse_right \<le> mouse_distance 175 100 (move (resting 10 100))"
    by (simp add: m mouse_distance_level move_def resting_def)
  have all: "\<forall>q\<in>set [resting 10 100, resting 20 100]. m_radius mouse_right \<le> mouse_distance 175 100 q"
    by (simp add: m mouse_distance_level resting_def)
  from mouse_absent_as_far [OF m(1,2), of "resting 10 100" demo_canvas config "sconst 0"
      "[resting 10 100, resting 20 100]"] m far all
  show ?thesis by simp
qed

section \<open>Properties of the carousel controller\<close>

subsection \<open>What the operations change\<close>

lemma resetAutoplay_fields:
  "currentIndex (resetAutoplay c) = currentIndex c \<and> totalItems (resetAutoplay c) = totalItems c \<and>
   isAnimating (resetAutoplay c) = isAnimating c \<and> cconfig (resetAutoplay c) = cconfig c \<and>
   pending (resetAutoplay c) = pending c"
  by (simp add: resetAutoplay_def startAutoplay_def stopAutoplay_def Let_def split: option.splits)

lemma updateCarousel_fields:
  "currentIndex (updateCarousel a c) = currentIndex c \<and> totalItems (updateCarousel a c) = totalItems c \<and>
   cconfig (updateCarousel a c) = cconfig c \<and>
   isAnimating (updateCarousel a c) = (a \<or> isAnimating c) \<and>
   pending (updateCarousel a c) =
     (if a then pending c @ [- real_of_int (currentIndex c) * (itemWidth (cconfig c) + itemGap (cconfig c))]
      else pending c)"
  by (simp add: updateCarousel_def updateProgress_def updateItemStates_def Let_def)

lemma Carousel3D_fields:
  "currentIndex (Carousel3D n cfg) = 0 \<and> totalItems (Carousel3D n cfg) = int n \<and>
   \<not> isAnimating (Carousel3D n cfg) \<and> cconfig (Carousel3D n cfg) = cfg \<and>
   pending (Carousel3D n cfg) = [] \<and> \<not> isDragging (Carousel3D n cfg) \<and>
   dragDistance (Carousel3D n cfg) = 0"
  by (simp add: Carousel3D_def init_def Let_def updateCarousel_def updateProgress_def
      updateItemStates_def startAutoplay_def stopAutoplay_def)

lemma prev_index:
  "\<not> isAnimating c \<Longrightarrow>
   currentIndex (prev c) =
     (if 0 < currentIndex c then currentIndex c - 1
      else if loop (cconfig c) then totalItems c - 1 else 0)"
  by (simp add: prev_def Let_def resetAutoplay_fields updateCarousel_fields)

lemma next_item_index:
  "\<not> isAnimating c \<Longrightarrow>
   currentIndex (next_item c) =
     (if currentIndex c + 1 < totalItems c then currentIndex c + 1
      else if loop (cconfig c) then 0 else totalItems c - 1)"
  by (simp add: next_item_def Let_def resetAutoplay_fields updateCarousel_fields)

lemma goTo_index:
  "\<not> isAnimating c \<Longrightarrow> currentIndex (goTo i c) = (if i = currentIndex c then i else max 0 (min i (totalItems c - 1)))"
  by (simp add: goTo_def Let_def resetAutoplay_fields updateCarousel_fields)

lemma nav_static:
  "totalItems (prev c) = totalItems c \<and> cconfig (prev c) = cconfig c \<and>
   totalItems (next_item c) = totalItems c \<and> cconfig (next_item c) = cconfig c \<and>
   totalItems (goTo i c) = totalItems c \<and> cconfig (goTo i c) = cconfig c"
  by (simp add: prev_def next_item_def goTo_def Let_def resetAutoplay_fields updateCarousel_fields)

lemma nav_animating:
  "isAnimating c \<Longrightarrow> prev c = c \<and> next_item c = c \<and> goTo i c = c"
  by (simp add: prev_def next_item_def goTo_def)

lemma nav_starts_transition:
  "\<not> isAnimating c \<Longrightarrow>
   isAnimating (prev c) \<and> isAnimating (next_item c) \<and> (i \<noteq> currentIndex c \<longrightarrow> isAnimating (goTo i c))"
  by (simp add: prev_def next_item_def goTo_def Let_def resetAutoplay_fields updateCarousel_fields)

lemma fold_onfinish_fields:
  "currentIndex (fold onfinish xs c) = currentIndex c \<and>
   totalItems (fold onfinish xs c) = totalItems c \<and>
   cconfig (fold onfinish xs c) = cconfig c \<and>
   isAnimating (fold onfinish xs c) = (xs = [] \<and> isAnimating c) \<and>
   trackTransform (fold onfinish xs c) = (if xs = [] then trackTransform c else last xs)"
  by (induction xs arbitrary: c) (simp_all add: onfinish_def)

lemma settle_fields:
  "currentIndex (settle c) = currentIndex c \<and>
   totalItems (settle c) = totalItems c \<and>
   cconfig (settle c) = cconfig c \<and>
   isAnimating (settle c) = (pending c = [] \<and> isAnimating c) \<and>
   trackTransform (settle c) = (if pending c = [] then trackTransform c else last (pending c)) \<and>
   pending (settle c) = []"
proof -
  have "pending (fold onfinish xs d) = pending d" for xs d
    by (induction xs arbitrary: d) (simp_all add: onfinish_def)
  then show ?thesis by (simp add: settle_def fold_onfinish_fields)
qed

lemma drag_finish_commute:
  "prev (c\<lparr> isDragging := False, trackCursor := ''grab'', trackUserSelect := [] \<rparr>)
     = (prev c)\<lparr> isDragging := False, trackCursor := ''grab'', trackUserSelect := [] \<rparr>
   \<and> next_item (c\<lparr> isDragging := False, trackCursor := ''grab'', trackUserSelect := [] \<rparr>)
     = (next_item c)\<lparr> isDragging := False, trackCursor := ''grab'', trackUserSelect := [] \<rparr>
   \<and> updateCarousel a (c\<lparr> isDragging := False, trackCursor := ''grab'', trackUserSelect := [] \<rparr>)
     = (updateCarousel a c)\<lparr> isDragging := False, trackCursor := ''grab'', trackUserSelect := [] \<rparr>"
  by (simp add: prev_def next_item_def updateCarousel_def updateProgress_def updateItemStates_def
      resetAutoplay_def startAutoplay_def stopAutoplay_def Let_def split: option.splits)

lemma drag_finish_fields:
  "currentIndex (drag_finish s) = currentIndex s \<and> totalItems (drag_finish s) = totalItems s \<and>
   cconfig (drag_finish s) = cconfig s \<and> isAnimating (drag_finish s) = isAnimating s \<and>
   pending (drag_finish s) = pending s \<and> trackTransform (drag_finish s) = trackTransform s"
  by (simp add: drag_finish_def Let_def startAutoplay_def stopAutoplay_def split: option.splits)

lemma drag_finish_index: "currentIndex (drag_finish s) = currentIndex s"
  by (simp add: drag_finish_fields)

lemma handleDragEnd_cases:
  assumes "isDragging c"
  shows "(dragThreshold (cconfig c) < \<bar>dragDistance c\<bar> \<and> 0 < dragDistance c \<longrightarrow>
            handleDragEnd c = drag_finish (prev c))
       \<and> (dragThreshold (cconfig c) < \<bar>dragDistance c\<bar> \<and> dragDistance c \<le> 0 \<longrightarrow>
            handleDragEnd c = drag_finish (next_item c))
       \<and> (\<bar>dragDistance c\<bar> \<le> dragThreshold (cconfig c) \<longrightarrow>
            handleDragEnd c = drag_finish (updateCarousel True c) \<and>
            currentIndex (handleDragEnd c) = currentIndex c)"
proof -
  have cc: "cconfig (prev c) = cconfig c" "cconfig (next_item c) = cconfig c"
    "cconfig (updateCarousel True c) = cconfig c"
    by (simp_all add: nav_static updateCarousel_fields)
  show ?thesis
    using assms drag_finish_commute [of c True] cc
    by (auto simp: handleDragEnd_def drag_finish_def Let_def updateCarousel_fields
        startAutoplay_def stopAutoplay_def split: option.splits)
qed

subsection \<open>Navigation\<close>

text \<open>
  C8. When no transition is in flight, \<^verbatim>\<open>prev\<close> takes the index back by one; from index
  \<open>0\<close> it goes to the last index when looping is enabled and stays at \<open>0\<close> when it is not.
  For a valid index this is \<open>(index - 1) mod totalItems\<close> with looping and
  \<open>max 0 (index - 1)\<close> without. With five items at index \<open>0\<close>: index \<open>4\<close> with looping,
  index \<open>0\<close> without.
\<close>

theorem prev_wraps_or_clamps:
  assumes "\<not> isAnimating c"
  shows "currentIndex (prev c) =
           (if 0 < currentIndex c then currentIndex c - 1
            else if loop (cconfig c) then totalItems c - 1 else 0)
       \<and> (0 \<le> currentIndex c \<and> currentIndex c < totalItems c \<longrightarrow>
            currentIndex (prev c) =
              (if loop (cconfig c) then (currentIndex c - 1) mod totalItems c
               else max 0 (currentIndex c - 1)))"
proof (intro conjI impI)
  show 1: "currentIndex (prev c) =
           (if 0 < currentIndex c then currentIndex c - 1
            else if loop (cconfig c) then totalItems c - 1 else 0)"
    by (rule prev_index [OF assms])
  assume v: "0 \<le> currentIndex c \<and> currentIndex c < totalItems c"
  show "currentIndex (prev c) =
              (if loop (cconfig c) then (currentIndex c - 1) mod totalItems c
               else max 0 (currentIndex c - 1))"
  proof (cases "0 < currentIndex c")
    case True
    with v have "(currentIndex c - 1) mod totalItems c = currentIndex c - 1"
      by (intro mod_pos_pos_trivial) simp_all
    with True show ?thesis unfolding 1 by simp
  next
    case False
    with v have z: "currentIndex c = 0" by simp
    from v have "(- 1) mod totalItems c = totalItems c - 1"
      by (simp add: zmod_minus1)
    with z show ?thesis unfolding 1 by simp
  qed
qed

theorem prev_wraps_or_clamps_witness:
  "\<not> isAnimating five_items \<and> currentIndex five_items = 0 \<and> totalItems five_items = 5 \<and>
   loop (cconfig five_items) \<and> currentIndex (prev five_items) = 4 \<and>
   \<not> isAnimating five_items_no_loop \<and> currentIndex five_items_no_loop = 0 \<and>
   totalItems five_items_no_loop = 5 \<and> \<not> loop (cconfig five_items_no_loop) \<and>
   currentIndex (prev five_items_no_loop) = 0"
proof -
  have a: "\<not> isAnimating five_items" "currentIndex five_items = 0" "totalItems five_items = 5"
    "loop (cconfig five_items)"
    by (simp_all add: five_items_def Carousel3D_fields carouselConfig_def)
  have b: "\<not> isAnimating five_items_no_loop" "currentIndex five_items_no_loop = 0"
    "totalItems five_items_no_loop = 5" "\<not> loop (cconfig five_items_no_loop)"
    by (simp_all add: five_items_no_loop_def Carousel3D_fields carouselConfig_def)
  from prev_wraps_or_clamps [OF a(1)] prev_wraps_or_clamps [OF b(1)] a b
  show ?thesis by simp
qed

text \<open>
  C5. \<^verbatim>\<open>next\<close>, \<^verbatim>\<open>prev\<close> and \<^verbatim>\<open>goTo\<close> (with any requested index) preserve the invariant
  that \<^verbatim>\<open>currentIndex\<close> is a valid index, \<open>0 \<le> currentIndex < totalItems\<close>, when looping
  is enabled, and lies in \<open>[0, totalItems - 1]\<close> when it is not. So does the end of a drag,
  the other operation that navigates.
\<close>

theorem navigation_preserves_index_invariant:
  assumes "index_invariant c"
  shows "index_invariant (next_item c) \<and> index_invariant (prev c) \<and> index_invariant (goTo i c)
       \<and> index_invariant (handleDragEnd c)"
proof -
  from assms have v: "0 \<le> currentIndex c" "currentIndex c < totalItems c"
    by (simp_all add: index_invariant_def split: if_splits)
  have valid: "index_invariant d"
    if "0 \<le> currentIndex d \<and> currentIndex d < totalItems c"
      and "totalItems d = totalItems c" and "cconfig d = cconfig c" for d
    using that by (simp add: index_invariant_def)
  have nav: "index_invariant (next_item c) \<and> index_invariant (prev c) \<and> index_invariant (goTo i c)"
  proof (cases "isAnimating c")
    case True
    with assms show ?thesis by (simp add: nav_animating)
  next
    case False
    have "0 \<le> currentIndex (next_item c) \<and> currentIndex (next_item c) < totalItems c"
      using v by (simp add: next_item_index [OF False])
    moreover have "0 \<le> currentIndex (prev c) \<and> currentIndex (prev c) < totalItems c"
      using v by (simp add: prev_index [OF False])
    moreover have "0 \<le> currentIndex (goTo i c) \<and> currentIndex (goTo i c) < totalItems c"
      using v by (auto simp: goTo_index [OF False])
    ultimately show ?thesis
      by (simp add: valid nav_static)
  qed
  have iff: "index_invariant d \<longleftrightarrow> 0 \<le> currentIndex d \<and> currentIndex d < totalItems d" for d
    by (auto simp: index_invariant_def)
  have fin: "index_invariant (drag_finish d)" if "index_invariant d" for d
    using that by (simp add: iff drag_finish_fields)
  have snap: "index_invariant (updateCarousel True c)"
    using assms by (simp add: iff updateCarousel_fields)
  have "index_invariant (handleDragEnd c)"
  proof (cases "isDragging c")
    case False
    with assms show ?thesis by (simp add: handleDragEnd_def)
  next
    case True
    from handleDragEnd_cases [OF True] nav snap fin show ?thesis
      by (cases "dragThreshold (cconfig c) < \<bar>dragDistance c\<bar>"; cases "0 < dragDistance c") auto
  qed
  with nav show ?thesis by simp
qed

theorem navigation_preserves_index_invariant_witness:
  "index_invariant five_items \<and> index_invariant (next_item five_items) \<and>
   index_invariant (prev five_items) \<and> index_invariant (goTo 7 five_items) \<and>
   currentIndex (goTo 7 five_items) = 4 \<and> index_invariant (handleDragEnd five_items)"
proof -
  have a: "\<not> isAnimating five_items" "currentIndex five_items = 0" "totalItems five_items = 5"
    "loop (cconfig five_items)"
    by (simp_all add: five_items_def Carousel3D_fields carouselConfig_def)
  then have i: "index_invariant five_items" by (simp add: index_invariant_def)
  from navigation_preserves_index_invariant [OF i, of 7] i goTo_index [OF a(1), of 7] a
  show ?thesis by simp
qed

text \<open>
  C9. For every valid index \<open>i\<close>, \<^verbatim>\<open>goTo(i)\<close> called while no transition is in flight
  leaves \<^verbatim>\<open>currentIndex = i\<close> once the animations have finished, and \<^verbatim>\<open>isAnimating\<close> is
  false again. When \<open>i\<close> is not the current index, the call starts a transition and the
  track ends at the offset of item \<open>i\<close>.
\<close>

theorem goTo_reaches_index:
  assumes "\<not> isAnimating c" and "0 \<le> i" and "i < totalItems c"
  shows "currentIndex (settle (goTo i c)) = i \<and> \<not> isAnimating (settle (goTo i c))
       \<and> (i \<noteq> currentIndex c \<longrightarrow>
            isAnimating (goTo i c) \<and> currentIndex (goTo i c) = i \<and>
            trackTransform (settle (goTo i c)) =
              - real_of_int i * (itemWidth (cconfig c) + itemGap (cconfig c)))"
proof -
  have idx: "currentIndex (goTo i c) = i"
    using assms by (simp add: goTo_index)
  have an: "\<not> isAnimating (settle (goTo i c))"
  proof (cases "i = currentIndex c")
    case True
    with assms(1) show ?thesis by (simp add: goTo_def settle_fields)
  next
    case False
    with assms(1) have "pending (goTo i c) \<noteq> []"
      by (simp add: goTo_def Let_def resetAutoplay_fields updateCarousel_fields)
    then show ?thesis by (simp add: settle_fields)
  qed
  have tr: "trackTransform (settle (goTo i c)) =
              - real_of_int i * (itemWidth (cconfig c) + itemGap (cconfig c))"
    if "i \<noteq> currentIndex c"
    using that assms by (simp add: goTo_def Let_def resetAutoplay_fields updateCarousel_fields settle_fields)
  from idx an tr nav_starts_transition [OF assms(1), of i] show ?thesis
    by (simp add: settle_fields)
qed

theorem goTo_reaches_index_witness:
  "(\<not> isAnimating five_items \<and> (0::int) \<le> 3 \<and> 3 < totalItems five_items) \<and>
   currentIndex (settle (goTo 3 five_items)) = 3 \<and> \<not> isAnimating (settle (goTo 3 five_items)) \<and>
   isAnimating (goTo 3 five_items) \<and> trackTransform (settle (goTo 3 five_items)) = - 1056"
proof -
  have a: "\<not> isAnimating five_items" "currentIndex five_items = 0" "totalItems five_items = 5"
    "cconfig five_items = carouselConfig"
    by (simp_all add: five_items_def Carousel3D_fields)
  have h: "(0::int) \<le> 3" "3 < totalItems five_items" using a by simp_all
  from goTo_reaches_index [OF a(1) h] a h show ?thesis
    by (simp add: carouselConfig_def)
qed

subsection \<open>A carousel without items\<close>

text \<open>
  C4, as stated, fails. The controller has no case for an empty item list. On a carousel
  built from zero items with the default configuration (looping enabled), \<^verbatim>\<open>prev\<close>
  decrements the index to \<open>-1\<close>, wraps it to \<open>totalItems - 1 = -1\<close> and starts a
  transition: the state has changed, and the index is still \<open>-1\<close> when the transition
  has finished.
\<close>

theorem zero_items_prev_changes_state:
  "totalItems no_items = 0 \<and> \<not> isAnimating no_items \<and> currentIndex no_items = 0 \<and>
   currentIndex (prev no_items) = - 1 \<and> isAnimating (prev no_items) \<and>
   prev no_items \<noteq> no_items \<and> currentIndex (settle (prev no_items)) = - 1"
proof -
  have a: "\<not> isAnimating no_items" "currentIndex no_items = 0" "totalItems no_items = 0"
    "loop (cconfig no_items)"
    by (simp_all add: no_items_def Carousel3D_fields carouselConfig_def)
  have p: "currentIndex (prev no_items) = - 1" using a by (simp add: prev_index)
  have q: "isAnimating (prev no_items)" using nav_starts_transition [OF a(1)] by simp
  from p a have "prev no_items \<noteq> no_items" by auto
  with a p q show ?thesis by (simp add: settle_fields)
qed

text \<open>
  C4, amended. The navigation operations are total: no path of \<^verbatim>\<open>next\<close>, \<^verbatim>\<open>prev\<close> or
  \<^verbatim>\<open>goTo\<close> throws, with or without items. With zero items they leave the state unchanged
  while a transition is in flight, and \<^verbatim>\<open>goTo(currentIndex)\<close> always does. Otherwise each
  of them starts a transition (\<^verbatim>\<open>isAnimating\<close> becomes true); \<^verbatim>\<open>goTo\<close> sets the index to
  \<open>0\<close>, and from index \<open>0\<close> \<^verbatim>\<open>next\<close> gives \<open>0\<close> with looping and \<open>-1\<close> without, \<^verbatim>\<open>prev\<close>
  gives \<open>-1\<close> with looping and \<open>0\<close> without.
\<close>

theorem zero_items_navigation:
  assumes "totalItems c = 0"
  shows "(isAnimating c \<longrightarrow> next_item c = c \<and> prev c = c \<and> goTo i c = c)
       \<and> goTo (currentIndex c) c = c
       \<and> (\<not> isAnimating c \<longrightarrow>
            isAnimating (next_item c) \<and> isAnimating (prev c) \<and>
            (i \<noteq> currentIndex c \<longrightarrow> isAnimating (goTo i c) \<and> currentIndex (goTo i c) = 0))
       \<and> (\<not> isAnimating c \<and> currentIndex c = 0 \<longrightarrow>
            currentIndex (next_item c) = (if loop (cconfig c) then 0 else - 1) \<and>
            currentIndex (prev c) = (if loop (cconfig c) then - 1 else 0))"
proof (intro conjI impI)
  assume "isAnimating c"
  then show "next_item c = c" "prev c = c" "goTo i c = c" by (simp_all add: nav_animating)
next
  show "goTo (currentIndex c) c = c" by (simp add: goTo_def)
next
  assume n: "\<not> isAnimating c"
  then show "isAnimating (next_item c)" "isAnimating (prev c)"
    by (simp_all add: nav_starts_transition)
  assume "i \<noteq> currentIndex c"
  with n assms show "isAnimating (goTo i c)" "currentIndex (goTo i c) = 0"
    by (simp_all add: nav_starts_transition goTo_index)
next
  assume "\<not> isAnimating c \<and> currentIndex c = 0"
  with assms show "currentIndex (next_item c) = (if loop (cconfig c) then 0 else - 1)"
    "currentIndex (prev c) = (if loop (cconfig c) then - 1 else 0)"
    by (simp_all add: next_item_index prev_index)
qed

theorem zero_items_navigation_witness:
  "totalItems no_items = 0 \<and> \<not> isAnimating no_items \<and> goTo (currentIndex no_items) no_items = no_items \<and>
   isAnimating (next_item no_items) \<and> currentIndex (goTo 3 no_items) = 0 \<and>
   isAnimating (prev no_items) \<and> next_item (prev no_items) = prev no_items"
proof -
  have a: "\<not> isAnimating no_items" "currentIndex no_items = 0" "totalItems no_items = 0"
    "loop (cconfig no_items)"
    by (simp_all add: no_items_def Carousel3D_fields carouselConfig_def)
  have t: "totalItems (prev no_items) = 0" using a by (simp add: nav_static)
  from zero_items_navigation [OF a(3), of 3] zero_items_navigation [OF t, of 3] a
  show ?thesis by simp
qed

subsection \<open>The end of a drag\<close>

text \<open>What the end of a drag leaves, for a displacement within the threshold and beyond it.\<close>

lemma handleDragEnd_snap_back:
  assumes "isDragging c" and "\<bar>dragDistance c\<bar> \<le> dragThreshold (cconfig c)"
  shows "currentIndex (handleDragEnd c) = currentIndex c \<and> isAnimating (handleDragEnd c) \<and>
         \<not> isDragging (handleDragEnd c) \<and> dragDistance (handleDragEnd c) = 0 \<and>
         pending (handleDragEnd c) =
           pending c @ [- real_of_int (currentIndex c) * (itemWidth (cconfig c) + itemGap (cconfig c))] \<and>
         trackTransform (settle (handleDragEnd c)) =
           - real_of_int (currentIndex c) * (itemWidth (cconfig c) + itemGap (cconfig c))"
proof -
  from handleDragEnd_cases [OF assms(1)] assms(2)
  have e: "handleDragEnd c = drag_finish (updateCarousel True c)" by simp
  have d: "\<not> isDragging (drag_finish s) \<and> dragDistance (drag_finish s) = 0" for s
    by (simp add: drag_finish_def Let_def startAutoplay_def stopAutoplay_def split: option.splits)
  show ?thesis
    unfolding e by (simp add: d drag_finish_fields updateCarousel_fields settle_fields)
qed

lemma handleDragEnd_navigates:
  assumes "isDragging c" and "\<not> isAnimating c"
    and "dragThreshold (cconfig c) < \<bar>dragDistance c\<bar>"
  shows "handleDragEnd c = drag_finish (if 0 < dragDistance c then prev c else next_item c) \<and>
         currentIndex (handleDragEnd c) =
           (if 0 < dragDistance c then currentIndex (prev c) else currentIndex (next_item c)) \<and>
         isAnimating (handleDragEnd c) \<and>
         trackTransform (settle (handleDragEnd c)) =
           - real_of_int (currentIndex (handleDragEnd c)) * (itemWidth (cconfig c) + itemGap (cconfig c))"
proof -
  from handleDragEnd_cases [OF assms(1)] assms(3)
  have e: "handleDragEnd c = drag_finish (if 0 < dragDistance c then prev c else next_item c)"
    by (cases "0 < dragDistance c") simp_all
  have p: "pending (prev c) =
      pending c @ [- real_of_int (currentIndex (prev c)) * (itemWidth (cconfig c) + itemGap (cconfig c))]"
    using assms(2) by (simp add: prev_def Let_def resetAutoplay_fields updateCarousel_fields)
  have n: "pending (next_item c) =
      pending c @ [- real_of_int (currentIndex (next_item c)) * (itemWidth (cconfig c) + itemGap (cconfig c))]"
    using assms(2) by (simp add: next_item_def Let_def resetAutoplay_fields updateCarousel_fields)
  show ?thesis
    unfolding e using p n nav_starts_transition [OF assms(2), of 0]
    by (simp add: drag_finish_fields settle_fields)
qed

text \<open>A move on a \<^verbatim>\<open>Touch\<close> throws while a drag is in progress; a move of the mouse is
  recorded.\<close>

lemma handleDragMove_Touch:
  "isDragging c \<Longrightarrow> kind e = Touch \<Longrightarrow> handleDragMove e c = Inl TypeError"
  by (simp add: handleDragMove_def)

lemma handleDragStart_dragging: "\<not> isAnimating c \<Longrightarrow> isDragging (handleDragStart e c)"
  by (simp add: handleDragStart_def stopAutoplay_def Let_def split: option.splits)

lemma move_listener_Touch: "kind e = Touch \<Longrightarrow> move_listener e c = c"
  by (simp add: move_listener_def handleDragMove_def)

lemma drag_by_Touch:
  "\<not> isAnimating c \<Longrightarrow>
   isDragging (drag_by Touch d c) \<and> dragDistance (drag_by Touch d c) = dragDistance c \<and>
   currentIndex (drag_by Touch d c) = currentIndex c \<and> totalItems (drag_by Touch d c) = totalItems c \<and>
   cconfig (drag_by Touch d c) = cconfig c \<and> \<not> isAnimating (drag_by Touch d c) \<and>
   pending (drag_by Touch d c) = pending c \<and> trackTransform (drag_by Touch d c) = trackTransform c"
  by (simp add: drag_by_def move_listener_Touch handleDragStart_def stopAutoplay_def Let_def
      split: option.splits)

lemma drag_by_MouseEvent:
  "\<not> isAnimating c \<Longrightarrow>
   isDragging (drag_by MouseEvent d c) \<and> dragDistance (drag_by MouseEvent d c) = d \<and>
   currentIndex (drag_by MouseEvent d c) = currentIndex c \<and>
   totalItems (drag_by MouseEvent d c) = totalItems c \<and>
   cconfig (drag_by MouseEvent d c) = cconfig c \<and> \<not> isAnimating (drag_by MouseEvent d c) \<and>
   pending (drag_by MouseEvent d c) = pending c \<and>
   trackTransform (drag_by MouseEvent d c) =
     - real_of_int (currentIndex c) * (itemWidth (cconfig c) + itemGap (cconfig c)) + d"
  by (simp add: drag_by_def move_listener_def handleDragStart_def handleDragMove_def pointer_x_def
      stopAutoplay_def Let_def split: option.splits)

lemma at_two_fields:
  "currentIndex at_two = 2 \<and> totalItems at_two = 5 \<and> \<not> isAnimating at_two \<and>
   cconfig at_two = carouselConfig \<and> pending at_two = [] \<and> dragDistance at_two = 0 \<and>
   trackTransform at_two = - 704"
proof -
  have a: "\<not> isAnimating five_items" "currentIndex five_items = 0" "totalItems five_items = 5"
    "cconfig five_items = carouselConfig" "dragDistance five_items = 0"
    by (simp_all add: five_items_def Carousel3D_fields)
  have p: "pending (goTo 2 five_items) = [- 704]"
    using a by (simp add: goTo_def Let_def resetAutoplay_fields updateCarousel_fields
        five_items_def Carousel3D_fields carouselConfig_def)
  have "dragDistance (fold onfinish xs d) = dragDistance d" for xs d
    by (induction xs arbitrary: d) (simp_all add: onfinish_def)
  moreover have "dragDistance (goTo 2 five_items) = 0"
    using a by (simp add: goTo_def Let_def resetAutoplay_def startAutoplay_def stopAutoplay_def
        updateCarousel_def updateProgress_def updateItemStates_def split: option.splits)
  ultimately have dd: "dragDistance at_two = 0" by (simp add: at_two_def settle_def)
  from a p dd show ?thesis
    by (simp add: at_two_def settle_fields goTo_index nav_static)
qed

text \<open>
  C7. At the end of a drag \<^verbatim>\<open>handleDragEnd\<close> compares \<^verbatim>\<open>dragDistance\<close> with the threshold,
  strictly, and a drag by mouse does what the claim says. With a threshold of 50 at
  index 2 of five items (resting offset \<open>-704\<close>): a mouse drag of \<open>+60\<close> is \<^verbatim>\<open>prev\<close>, the
  index becomes \<open>1\<close> and the track ends at \<open>-352\<close>; mouse drags of \<open>+40\<close> and of exactly
  \<open>+50\<close> leave the index at \<open>2\<close> and start the transition that takes the track from
  where the drag left it back to \<open>-704\<close>; a mouse drag of \<open>-60\<close> gives index \<open>3\<close>.

  A drag by touch does not. The \<^verbatim>\<open>touchmove\<close> listener hands \<^verbatim>\<open>handleDragMove\<close> a
  \<^verbatim>\<open>Touch\<close>, the call \<^verbatim>\<open>e.preventDefault()\<close> throws a \<^verbatim>\<open>TypeError\<close>, and \<^verbatim>\<open>dragDistance\<close> is
  never written: the touch drag of \<open>+60\<close> ends with \<^verbatim>\<open>dragDistance = 0\<close>, \<^verbatim>\<open>prev\<close> is not
  called, and the carousel snaps back to index \<open>2\<close>, where \<^verbatim>\<open>prev\<close> would have given
  \<open>1\<close>.
\<close>

theorem touch_drag_never_reaches_prev:
  "handleDragMove \<lparr> kind = Touch, clientX = 160, pageX = 160 \<rparr>
     (handleDragStart \<lparr> kind = Touch, clientX = 100, pageX = 100 \<rparr> at_two) = Inl TypeError \<and>
   isDragging (drag_by Touch 60 at_two) \<and> dragDistance (drag_by Touch 60 at_two) = 0 \<and>
   dragThreshold (cconfig (drag_by Touch 60 at_two)) = 50 \<and>
   currentIndex (handleDragEnd (drag_by Touch 60 at_two)) = 2 \<and>
   currentIndex (prev (drag_by Touch 60 at_two)) = 1 \<and>
   handleDragEnd (drag_by Touch 60 at_two) \<noteq> drag_finish (prev (drag_by Touch 60 at_two)) \<and>
   isAnimating (handleDragEnd (drag_by Touch 60 at_two)) \<and>
   trackTransform (settle (handleDragEnd (drag_by Touch 60 at_two))) = - 704 \<and>
   dragDistance (drag_by MouseEvent 60 at_two) = 60 \<and>
   handleDragEnd (drag_by MouseEvent 60 at_two) = drag_finish (prev (drag_by MouseEvent 60 at_two)) \<and>
   currentIndex (handleDragEnd (drag_by MouseEvent 60 at_two)) = 1 \<and>
   trackTransform (settle (handleDragEnd (drag_by MouseEvent 60 at_two))) = - 352 \<and>
   trackTransform (drag_by MouseEvent 40 at_two) = - 664 \<and>
   currentIndex (handleDragEnd (drag_by MouseEvent 40 at_two)) = 2 \<and>
   isAnimating (handleDragEnd (drag_by MouseEvent 40 at_two)) \<and>
   pending (handleDragEnd (drag_by MouseEvent 40 at_two)) = [- 704] \<and>
   trackTransform (settle (handleDragEnd (drag_by MouseEvent 40 at_two))) = - 704 \<and>
   currentIndex (handleDragEnd (drag_by MouseEvent 50 at_two)) = 2 \<and>
   trackTransform (settle (handleDragEnd (drag_by MouseEvent 50 at_two))) = - 704 \<and>
   handleDragEnd (drag_by MouseEvent (- 60) at_two)
     = drag_finish (next_item (drag_by MouseEvent (- 60) at_two)) \<and>
   currentIndex (handleDragEnd (drag_by MouseEvent (- 60) at_two)) = 3"
proof -
  have n: "\<not> isAnimating at_two" by (simp add: at_two_fields)
  have c: "itemWidth carouselConfig + itemGap carouselConfig = 352" "dragThreshold carouselConfig = 50"
    "loop carouselConfig"
    by (simp_all add: carouselConfig_def)
  have t: "isDragging (drag_by Touch 60 at_two)" "dragDistance (drag_by Touch 60 at_two) = 0"
    "currentIndex (drag_by Touch 60 at_two) = 2" "totalItems (drag_by Touch 60 at_two) = 5"
    "cconfig (drag_by Touch 60 at_two) = carouselConfig" "\<not> isAnimating (drag_by Touch 60 at_two)"
    "pending (drag_by Touch 60 at_two) = []"
    using drag_by_Touch [OF n, of 60] by (simp_all add: at_two_fields)
  have m: "isDragging (drag_by MouseEvent d at_two)" "dragDistance (drag_by MouseEvent d at_two) = d"
    "currentIndex (drag_by MouseEvent d at_two) = 2" "totalItems (drag_by MouseEvent d at_two) = 5"
    "cconfig (drag_by MouseEvent d at_two) = carouselConfig"
    "\<not> isAnimating (drag_by MouseEvent d at_two)" "pending (drag_by MouseEvent d at_two) = []"
    "trackTransform (drag_by MouseEvent d at_two) = - 704 + d" for d
    using drag_by_MouseEvent [OF n, of d] by (simp_all add: at_two_fields c)
  have throw: "handleDragMove \<lparr> kind = Touch, clientX = 160, pageX = 160 \<rparr>
     (handleDragStart \<lparr> kind = Touch, clientX = 100, pageX = 100 \<rparr> at_two) = Inl TypeError"
    using handleDragStart_dragging [OF n] by (intro handleDragMove_Touch) simp_all
  have tp: "currentIndex (prev (drag_by Touch 60 at_two)) = 1"
    by (simp add: prev_index t c)
  have ts: "currentIndex (handleDragEnd (drag_by Touch 60 at_two)) = 2"
    "isAnimating (handleDragEnd (drag_by Touch 60 at_two))"
    "trackTransform (settle (handleDragEnd (drag_by Touch 60 at_two))) = - 704"
    using handleDragEnd_snap_back [OF t(1)] by (simp_all add: t c)
  have tn: "handleDragEnd (drag_by Touch 60 at_two) \<noteq> drag_finish (prev (drag_by Touch 60 at_two))"
  proof
    assume "handleDragEnd (drag_by Touch 60 at_two) = drag_finish (prev (drag_by Touch 60 at_two))"
    then have "currentIndex (handleDragEnd (drag_by Touch 60 at_two))
        = currentIndex (drag_finish (prev (drag_by Touch 60 at_two)))" by simp
    with ts(1) tp show False by (simp add: drag_finish_fields)
  qed
  have mp: "currentIndex (prev (drag_by MouseEvent 60 at_two)) = 1"
    by (simp add: prev_index m c)
  have mn: "currentIndex (next_item (drag_by MouseEvent (- 60) at_two)) = 3"
    by (simp add: next_item_index m c)
  note nav = handleDragEnd_navigates [OF m(1) m(6)]
  have m60e: "handleDragEnd (drag_by MouseEvent 60 at_two) = drag_finish (prev (drag_by MouseEvent 60 at_two))"
    using nav [of 60, THEN conjunct1] by (simp add: m c)
  have m60: "currentIndex (handleDragEnd (drag_by MouseEvent 60 at_two)) = 1"
    "trackTransform (settle (handleDragEnd (drag_by MouseEvent 60 at_two))) = - 352"
    using nav [of 60, THEN conjunct2] by (simp_all add: m c mp)
  have m60ne: "handleDragEnd (drag_by MouseEvent (- 60) at_two)
       = drag_finish (next_item (drag_by MouseEvent (- 60) at_two))"
    using nav [of "- 60", THEN conjunct1] by (simp add: m c)
  have m60n: "currentIndex (handleDragEnd (drag_by MouseEvent (- 60) at_two)) = 3"
    using nav [of "- 60", THEN conjunct2] by (simp add: m c mn)
  have m40: "currentIndex (handleDragEnd (drag_by MouseEvent 40 at_two)) = 2"
    "isAnimating (handleDragEnd (drag_by MouseEvent 40 at_two))"
    "pending (handleDragEnd (drag_by MouseEvent 40 at_two)) = [- 704]"
    "trackTransform (settle (handleDragEnd (drag_by MouseEvent 40 at_two))) = - 704"
    using handleDragEnd_snap_back [OF m(1), of 40] by (simp_all add: m c)
  have m50: "currentIndex (handleDragEnd (drag_by MouseEvent 50 at_two)) = 2"
    "trackTransform (settle (handleDragEnd (drag_by MouseEvent 50 at_two))) = - 704"
    using handleDragEnd_snap_back [OF m(1), of 50] by (simp_all add: m c)
  from throw t tp ts tn m [of 60] m [of 40] m60e m60 m60ne m60n m40 m50 c show ?thesis by simp
qed

end
